theory Spec2Isabelle
  imports
    Main
    "HOL-Library.Word"
    "HOL-Library.Char_ord"
    "HOL-Library.List_Lexorder"
    "HOL-Library.Multiset"
begin

section \<open>The file sinks of sim-logger\<close>

text \<open>
  A shallow embedding of \<^verbatim>\<open>logger_core/src/file_sink.cpp\<close> and
  \<^verbatim>\<open>logger_core/src/rotating_file_sink.cpp\<close>.

  \<^item> The two classes are records, \<open>rotating_file_sink\<close> extending \<open>file_sink\<close> as the
    C++ class extends its base; the fields keep their names without the trailing
    underscore (\<open>file_\<close> is \<open>file_ptr\<close>: \<open>file\<close> is a keyword).
  \<^item> The file system is an association list from path strings to nodes, in the order
    a directory iterator yields them. Paths are compared as strings.
  \<^item> A \<^verbatim>\<open>FILE*\<close> is the path the stream was opened on (\<open>None\<close> is the null
    pointer). The stdio buffer is not modelled: the content of a file is everything
    written to its stream.
  \<^item> An exception is an \<open>error\<close> value. Every operation returns the state it leaves
    behind as well, since an exception does not undo what was done before it.
  \<^item> What the operating system and the C++ library decide (which calls fail, how many
    bytes \<^verbatim>\<open>fwrite\<close> takes, what the clock reads, how \<^verbatim>\<open>std::sort\<close> arranges
    elements that compare equal) is the \<open>env\<close> argument.
  \<^item> Only one thread is modelled: every function here runs with the mutex held.
\<close>

subsection \<open>Data\<close>

datatype error =
    FileSink_path_empty
  | RotatingFileSink_path_empty
  | RotatingFileSink_max_bytes_zero
  | File_handle_null
  | Write_failed
  | Fflush_failed
  | Fileno_failed
  | Fsync_failed
  | Fopen_failed
  | Rename_failed
  | No_unique_rotated_filename

datatype node = RegularFile string | Directory

type_synonym filesystem = "(string \<times> node) list"

datatype io_op =
    Op_fopen string
  | Op_fflush
  | Op_fileno
  | Op_fsync
  | Op_fseek
  | Op_ftell
  | Op_rename string string
  | Op_remove string
  | Op_opendir string
  | Op_readdir string

record candidate =
  cpath :: string
  ts :: string
  seq :: "32 word"

record env =
  fails :: "io_op \<Rightarrow> bool"
  fwrite_count :: "string \<Rightarrow> nat"
  now_utc :: string
  tie_order :: "candidate list \<Rightarrow> candidate list"

record file_sink =
  path :: string
  durable_flush :: bool
  file_ptr :: "string option"
  bytes_written :: "64 word"

record rotating_file_sink = file_sink +
  base_path :: string
  max_bytes :: "64 word"
  rotations_performed :: "64 word"
  max_rotated_files :: nat

subsection \<open>parse_rotation_suffix\<close>

text \<open>The test \<^verbatim>\<open>c < '0' || c > '9'\<close> of the source.\<close>

definition not_digit :: "char \<Rightarrow> bool" where
  "not_digit c = (c < CHR ''0'' \<or> CHR ''9'' < c)"

text \<open>
  The loop over \<^verbatim>\<open>seq_str\<close>: \<^verbatim>\<open>acc = acc * 10 + (c - '0')\<close> on a
  \<^verbatim>\<open>uint32_t\<close>, a non-digit returning false.
\<close>

fun parse_seq :: "32 word \<Rightarrow> string \<Rightarrow> 32 word option" where
  "parse_seq acc [] = Some acc"
| "parse_seq acc (c # cs) =
     (if not_digit c then None
      else parse_seq (acc * 10 + of_nat (of_char c - of_char (CHR ''0''))) cs)"

text \<open>
  The two out-parameters and the boolean result are one option: \<open>None\<close> is
  \<^verbatim>\<open>false\<close>, \<open>Some (ts, seq)\<close> is \<^verbatim>\<open>true\<close> with the values stored.
\<close>

definition parse_rotation_suffix :: "string \<Rightarrow> string \<Rightarrow> (string \<times> 32 word) option" where
  "parse_rotation_suffix filename base_filename =
     (let pre = base_filename @ ''.'' in
      if take (length pre) filename \<noteq> pre then None
      else
        let rest = drop (length pre) filename in
        if length rest < 15 then None
        else
          let t = take 15 rest in
          if list_ex not_digit (take 8 t) then None
          else if t ! 8 \<noteq> CHR ''_'' then None
          else if list_ex not_digit (drop 9 t) then None
          else if 15 < length rest then
            (if rest ! 15 \<noteq> CHR ''.'' then None
             else
               let seq_str = drop 16 rest in
               if seq_str = [] then None
               else (case parse_seq 0 seq_str of
                       None \<Rightarrow> None
                     | Some a \<Rightarrow> Some (t, a)))
          else Some (t, 0))"

subsection \<open>The file system and the C library\<close>

text \<open>\<^verbatim>\<open>fs::exists(path, ec)\<close>: the path names a node of any kind.\<close>

definition file_exists :: "filesystem \<Rightarrow> string \<Rightarrow> bool" where
  "file_exists fs p = (map_of fs p \<noteq> None)"

text \<open>
  \<^verbatim>\<open>fopen(path, "a")\<close>: \<open>None\<close> is the null pointer; a missing file is created
  empty, an existing regular file is left as it is.
\<close>

definition fopen_append :: "env \<Rightarrow> string \<Rightarrow> filesystem \<Rightarrow> filesystem option" where
  "fopen_append e p fs =
     (if fails e (Op_fopen p) \<or> p = [] then None
      else (case map_of fs p of
              None \<Rightarrow> Some (fs @ [(p, RegularFile [])])
            | Some (RegularFile c) \<Rightarrow> Some fs
            | Some Directory \<Rightarrow> None))"

definition file_length :: "filesystem \<Rightarrow> string \<Rightarrow> nat" where
  "file_length fs p = (case map_of fs p of Some (RegularFile c) \<Rightarrow> length c | _ \<Rightarrow> 0)"

definition file_size_or_zero :: "env \<Rightarrow> filesystem \<Rightarrow> string option \<Rightarrow> 64 word" where
  "file_size_or_zero e fs f =
     (case f of
        None \<Rightarrow> 0
      | Some p \<Rightarrow>
          if fails e Op_fseek then 0
          else if fails e Op_ftell then 0
          else of_nat (file_length fs p))"

text \<open>The bytes \<open>d\<close> reach the end of the regular file named \<open>p\<close>.\<close>

definition append_bytes :: "string \<Rightarrow> string \<Rightarrow> filesystem \<Rightarrow> filesystem" where
  "append_bytes p d fs =
     map (\<lambda>(q, n). if q = p then (q, case n of RegularFile c \<Rightarrow> RegularFile (c @ d)
                                          | Directory \<Rightarrow> Directory)
                    else (q, n)) fs"

text \<open>
  \<^verbatim>\<open>fwrite\<close> takes \<open>fwrite_count\<close> bytes of the data, at most all of them; the
  source throws unless it took all.
\<close>

definition write_all_or_throw ::
  "env \<Rightarrow> string option \<Rightarrow> string \<Rightarrow> filesystem \<Rightarrow> error option \<times> filesystem" where
  "write_all_or_throw e f data fs =
     (case f of
        None \<Rightarrow> (Some File_handle_null, fs)
      | Some p \<Rightarrow>
          let written = min (fwrite_count e data) (length data) in
          (if written \<noteq> length data then Some Write_failed else None,
           append_bytes p (take written data) fs))"

definition fflush_or_throw :: "env \<Rightarrow> string option \<Rightarrow> error option" where
  "fflush_or_throw e f =
     (case f of
        None \<Rightarrow> Some File_handle_null
      | Some p \<Rightarrow> if fails e Op_fflush then Some Fflush_failed else None)"

definition fsync_or_throw :: "env \<Rightarrow> string option \<Rightarrow> error option" where
  "fsync_or_throw e f =
     (if fails e Op_fileno then Some Fileno_failed
      else if fails e Op_fsync then Some Fsync_failed
      else None)"

text \<open>
  \<^verbatim>\<open>std::rename\<close>: the node moves to its new name, replacing a regular file that
  has that name already.
\<close>

definition rename_file :: "env \<Rightarrow> string \<Rightarrow> string \<Rightarrow> filesystem \<Rightarrow> filesystem option" where
  "rename_file e from to fs =
     (if fails e (Op_rename from to) then None
      else (case map_of fs from of
              None \<Rightarrow> None
            | Some n \<Rightarrow>
                if from = to then Some fs
                else if map_of fs to = Some Directory then None
                else Some (map (\<lambda>(q, m). if q = from then (to, m) else (q, m))
                             (filter (\<lambda>(q, m). q \<noteq> to) fs))))"

text \<open>\<^verbatim>\<open>fs::remove(path, ec)\<close>, its error code ignored by the caller.\<close>

definition remove_file :: "env \<Rightarrow> string \<Rightarrow> filesystem \<Rightarrow> filesystem" where
  "remove_file e p fs = (if fails e (Op_remove p) then fs else filter (\<lambda>(q, n). q \<noteq> p) fs)"

text \<open>
  \<^verbatim>\<open>fs::path::filename\<close> and \<^verbatim>\<open>fs::path::parent_path\<close> for paths in the
  generic format, with \<^verbatim>\<open>/\<close> between the components.
\<close>

definition filename_of :: "string \<Rightarrow> string" where
  "filename_of p = rev (takeWhile (\<lambda>c. c \<noteq> CHR ''/'') (rev p))"

definition parent_path :: "string \<Rightarrow> string" where
  "parent_path p =
     (let d = rev (dropWhile (\<lambda>c. c = CHR ''/'') (dropWhile (\<lambda>c. c \<noteq> CHR ''/'') (rev p)))
      in if d = [] \<and> take 1 p = ''/'' then ''/'' else d)"

text \<open>
  The directory of a path, as \<^verbatim>\<open>prune_old_rotations_locked\<close> computes it for
  the base path: \<^verbatim>\<open>parent_path().empty() ? "." : parent_path()\<close>. A node of the
  file system is an entry of that directory.
\<close>

definition containing_dir :: "string \<Rightarrow> string" where
  "containing_dir p = (if parent_path p = [] then ''.'' else parent_path p)"

text \<open>\<^verbatim>\<open>std::to_string\<close> of an unsigned number: its decimal digits.\<close>

fun to_string :: "nat \<Rightarrow> string" where
  "to_string n =
     (if n < 10 then [char_of (48 + n)]
      else to_string (n div 10) @ [char_of (48 + n mod 10)])"

declare to_string.simps [simp del]

text \<open>
  \<^verbatim>\<open>make_timestamp_utc\<close>: the clock's reading in the format
  \<^verbatim>\<open>%Y%m%d_%H%M%S\<close>, which the environment supplies.
\<close>

definition make_timestamp_utc :: "env \<Rightarrow> string" where
  "make_timestamp_utc e = now_utc e"

subsection \<open>FileSink\<close>

definition write_line_locked ::
  "env \<Rightarrow> string \<Rightarrow> 'a file_sink_scheme \<times> filesystem
     \<Rightarrow> error option \<times> 'a file_sink_scheme \<times> filesystem" where
  "write_line_locked e line st =
     (case st of (s, fs) \<Rightarrow>
        (case write_all_or_throw e (file_ptr s) line fs of
           (Some err, fs1) \<Rightarrow> (Some err, (s, fs1))
         | (None, fs1) \<Rightarrow>
             let s1 = s\<lparr>bytes_written := bytes_written s + of_nat (length line)\<rparr> in
             if line = [] \<or> last line \<noteq> CHR 0x0A then
               (case write_all_or_throw e (file_ptr s1) [CHR 0x0A] fs1 of
                  (Some err, fs2) \<Rightarrow> (Some err, (s1, fs2))
                | (None, fs2) \<Rightarrow> (None, (s1\<lparr>bytes_written := bytes_written s1 + 1\<rparr>, fs2)))
             else (None, (s1, fs1))))"

definition flush_locked ::
  "env \<Rightarrow> 'a file_sink_scheme \<times> filesystem
     \<Rightarrow> error option \<times> 'a file_sink_scheme \<times> filesystem" where
  "flush_locked e st =
     (case st of (s, fs) \<Rightarrow>
        (case fflush_or_throw e (file_ptr s) of
           Some err \<Rightarrow> (Some err, (s, fs))
         | None \<Rightarrow>
             if durable_flush s then (fsync_or_throw e (file_ptr s), (s, fs))
             else (None, (s, fs))))"

definition close_locked_noexcept ::
  "'a file_sink_scheme \<times> filesystem \<Rightarrow> 'a file_sink_scheme \<times> filesystem" where
  "close_locked_noexcept st =
     (case st of (s, fs) \<Rightarrow> (s\<lparr>file_ptr := None, bytes_written := 0\<rparr>, fs))"

definition open_locked_or_throw ::
  "env \<Rightarrow> 'a file_sink_scheme \<times> filesystem
     \<Rightarrow> error option \<times> 'a file_sink_scheme \<times> filesystem" where
  "open_locked_or_throw e st =
     (case st of (s, fs) \<Rightarrow>
        (case fopen_append e (path s) fs of
           None \<Rightarrow> (Some Fopen_failed, (s\<lparr>file_ptr := None\<rparr>, fs))
         | Some fs1 \<Rightarrow>
             (None, (s\<lparr>file_ptr := Some (path s),
                       bytes_written := file_size_or_zero e fs1 (Some (path s))\<rparr>, fs1))))"

definition reopen_locked ::
  "env \<Rightarrow> string \<Rightarrow> 'a file_sink_scheme \<times> filesystem
     \<Rightarrow> error option \<times> 'a file_sink_scheme \<times> filesystem" where
  "reopen_locked e new_path st =
     (case close_locked_noexcept st of (s, fs) \<Rightarrow>
        open_locked_or_throw e (s\<lparr>path := new_path\<rparr>, fs))"

text \<open>
  The constructor: \<open>Inl\<close> is the exception, and no object exists then. The file
  system is returned in both cases.
\<close>

definition FileSink ::
  "env \<Rightarrow> string \<Rightarrow> bool \<Rightarrow> filesystem \<Rightarrow> (error + file_sink) \<times> filesystem" where
  "FileSink e p durable fs =
     (if p = [] then (Inl FileSink_path_empty, fs)
      else (case open_locked_or_throw e
                   (\<lparr>path = p, durable_flush = durable, file_ptr = None, bytes_written = 0\<rparr>, fs) of
              (Some err, (s, fs1)) \<Rightarrow> (Inl err, fs1)
            | (None, (s, fs1)) \<Rightarrow> (Inr s, fs1)))"

text \<open>
  \<^verbatim>\<open>write\<close> and \<^verbatim>\<open>flush\<close> take the mutex and call the locked helper. The line
  is the record as \<^verbatim>\<open>format_record\<close> rendered it.
\<close>

definition FileSink_write ::
  "env \<Rightarrow> string \<Rightarrow> 'a file_sink_scheme \<times> filesystem
     \<Rightarrow> error option \<times> 'a file_sink_scheme \<times> filesystem" where
  "FileSink_write e line st = write_line_locked e line st"

definition flush ::
  "env \<Rightarrow> 'a file_sink_scheme \<times> filesystem
     \<Rightarrow> error option \<times> 'a file_sink_scheme \<times> filesystem" where
  "flush e st = flush_locked e st"

subsection \<open>RotatingFileSink\<close>

text \<open>
  The base-class constructor runs first, from the member-initialiser list; the two
  checks of the body follow. When the body throws, the base object is destroyed again,
  which closes the stream and leaves the file system as it is.
\<close>

definition RotatingFileSink ::
  "env \<Rightarrow> string \<Rightarrow> 64 word \<Rightarrow> bool \<Rightarrow> nat \<Rightarrow> filesystem
     \<Rightarrow> (error + rotating_file_sink) \<times> filesystem" where
  "RotatingFileSink e p maxb durable max_rot fs =
     (case FileSink e p durable fs of
        (Inl err, fs1) \<Rightarrow> (Inl err, fs1)
      | (Inr b, fs1) \<Rightarrow>
          let s = \<lparr>path = path b, durable_flush = durable_flush b, file_ptr = file_ptr b,
                   bytes_written = bytes_written b,
                   base_path = p, max_bytes = maxb, rotations_performed = 0,
                   max_rotated_files = max_rot\<rparr>
          in if base_path s = [] then (Inl RotatingFileSink_path_empty, fs1)
             else if max_bytes s = 0 then (Inl RotatingFileSink_max_bytes_zero, fs1)
             else (Inr s, fs1))"

text \<open>
  The directory loop of \<^verbatim>\<open>prune_old_rotations_locked\<close>: the regular files of
  \<open>dir\<close> whose name \<^verbatim>\<open>parse_rotation_suffix\<close> accepts, in the iterator's order.
\<close>

fun scan_directory :: "string \<Rightarrow> string \<Rightarrow> filesystem \<Rightarrow> candidate list" where
  "scan_directory dir base_filename [] = []"
| "scan_directory dir base_filename ((q, n) # ents) =
     (if containing_dir q \<noteq> dir then scan_directory dir base_filename ents
      else if n = Directory then scan_directory dir base_filename ents
      else (case parse_rotation_suffix (filename_of q) base_filename of
              None \<Rightarrow> scan_directory dir base_filename ents
            | Some (t, a) \<Rightarrow>
                \<lparr>cpath = q, ts = t, seq = a\<rparr> # scan_directory dir base_filename ents))"

text \<open>The comparator handed to \<^verbatim>\<open>std::sort\<close>.\<close>

definition cand_less :: "candidate \<Rightarrow> candidate \<Rightarrow> bool" where
  "cand_less a b = (if ts a \<noteq> ts b then ts a < ts b else seq a < seq b)"

text \<open>
  \<^verbatim>\<open>std::sort\<close> with that comparator. The standard leaves the order of two
  candidates that compare equal open, and an implementation may place them either way.
  So the environment arranges the candidates first (\<open>tie_order\<close>, which counts only
  when it is a rearrangement of its argument), and an insertion sort that keeps equal
  candidates in that arrangement follows: every ascending arrangement of the candidates
  is the result in some environment, and nothing else is.
\<close>

fun insert_sorted :: "candidate \<Rightarrow> candidate list \<Rightarrow> candidate list" where
  "insert_sorted x [] = [x]"
| "insert_sorted x (y # ys) =
     (if cand_less y x then y # insert_sorted x ys else x # y # ys)"

definition std_sort :: "env \<Rightarrow> candidate list \<Rightarrow> candidate list" where
  "std_sort e xs =
     foldr insert_sorted (if mset (tie_order e xs) = mset xs then tie_order e xs else xs) []"

text \<open>The deletion loop, over the first \<^verbatim>\<open>to_delete\<close> candidates.\<close>

fun remove_all :: "env \<Rightarrow> candidate list \<Rightarrow> filesystem \<Rightarrow> filesystem" where
  "remove_all e [] fs = fs"
| "remove_all e (c # cs) fs = remove_all e cs (remove_file e (cpath c) fs)"

text \<open>
  An exception inside the \<^verbatim>\<open>try\<close> block (the iterator's increment throws on a read
  error) is caught and nothing is deleted; an iterator that cannot be constructed sets
  the error code and yields no entry. The status query \<^verbatim>\<open>is_regular_file\<close> on an entry
  is taken to succeed.
\<close>

definition prune_old_rotations_locked ::
  "env \<Rightarrow> rotating_file_sink \<times> filesystem \<Rightarrow> rotating_file_sink \<times> filesystem" where
  "prune_old_rotations_locked e st =
     (case st of (s, fs) \<Rightarrow>
        if max_rotated_files s = 0 then (s, fs)
        else
          let dir = containing_dir (base_path s);
              base_filename = filename_of (base_path s)
          in if fails e (Op_readdir dir) then (s, fs)
             else
               let candidates =
                     (if fails e (Op_opendir dir) then []
                      else scan_directory dir base_filename fs)
               in if length candidates \<le> max_rotated_files s then (s, fs)
                  else
                    let sorted = std_sort e candidates;
                        to_delete = length candidates - max_rotated_files s
                    in (s, remove_all e (take to_delete sorted) fs))"

text \<open>
  The probing loop \<^verbatim>\<open>for (seq = 1; seq < 10000; ++seq)\<close>: \<open>rotated_name\<close> is the
  name assigned last, which is the result when the loop runs to its end.
\<close>

function probe_names :: "filesystem \<Rightarrow> string \<Rightarrow> nat \<Rightarrow> string \<Rightarrow> string" where
  "probe_names fs rotated_base sq rotated_name =
     (if sq < 10000 then
        (let name = rotated_base @ ''.'' @ to_string sq in
         if \<not> file_exists fs name then name
         else probe_names fs rotated_base (sq + 1) name)
      else rotated_name)"
  by pat_completeness auto
termination
  by (relation "measure (\<lambda>(fs, rotated_base, sq, rotated_name). 10000 - sq)") auto

declare probe_names.simps [simp del]

text \<open>
  The choice of the rotated name: the base name with the timestamp, or, when that
  exists, the first probed name that does not; the exception when the last probed name
  exists as well.
\<close>

definition pick_rotated_name :: "filesystem \<Rightarrow> string \<Rightarrow> error + string" where
  "pick_rotated_name fs rotated_base =
     (if file_exists fs rotated_base then
        (let rotated_name = probe_names fs rotated_base 1 rotated_base in
         if file_exists fs rotated_name then Inl No_unique_rotated_filename
         else Inr rotated_name)
      else Inr rotated_base)"

definition rotate_locked ::
  "env \<Rightarrow> rotating_file_sink \<times> filesystem
     \<Rightarrow> error option \<times> rotating_file_sink \<times> filesystem" where
  "rotate_locked e st =
     (case flush_locked e st of
        (Some err, st1) \<Rightarrow> (Some err, st1)
      | (None, st1) \<Rightarrow>
          (case close_locked_noexcept st1 of (s2, fs2) \<Rightarrow>
             let tstamp = make_timestamp_utc e;
                 rotated_base = base_path s2 @ ''.'' @ tstamp
             in (case pick_rotated_name fs2 rotated_base of
                   Inl err \<Rightarrow> (Some err, (s2, fs2))
                 | Inr rotated_name \<Rightarrow>
                     (case rename_file e (base_path s2) rotated_name fs2 of
                        None \<Rightarrow> (Some Rename_failed, (s2, fs2))
                      | Some fs3 \<Rightarrow>
                          (case reopen_locked e (base_path s2) (s2, fs3) of
                             (Some err, st4) \<Rightarrow> (Some err, st4)
                           | (None, (s4, fs4)) \<Rightarrow>
                               (None,
                                prune_old_rotations_locked e
                                  (s4\<lparr>rotations_performed := rotations_performed s4 + 1\<rparr>,
                                   fs4)))))))"

text \<open>
  \<^verbatim>\<open>RotatingFileSink::write\<close>, after \<^verbatim>\<open>format_record\<close> has rendered the
  record to \<open>line\<close>. \<open>projected\<close> is computed in \<^verbatim>\<open>uint64_t\<close>.
\<close>

definition projected :: "rotating_file_sink \<Rightarrow> string \<Rightarrow> 64 word" where
  "projected s line =
     bytes_written s + of_nat (length line) +
     (if line = [] \<or> last line \<noteq> CHR 0x0A then 1 else 0)"

definition RotatingFileSink_write ::
  "env \<Rightarrow> string \<Rightarrow> rotating_file_sink \<times> filesystem
     \<Rightarrow> error option \<times> rotating_file_sink \<times> filesystem" where
  "RotatingFileSink_write e line st =
     (case (if max_bytes (fst st) \<le> projected (fst st) line then rotate_locked e st
            else (None, st)) of
        (Some err, st1) \<Rightarrow> (Some err, st1)
      | (None, st1) \<Rightarrow> write_line_locked e line st1)"

subsection \<open>Vocabulary of the specification\<close>

text \<open>A string of decimal digits, and the number it denotes.\<close>

definition all_digits :: "string \<Rightarrow> bool" where
  "all_digits s = list_all (\<lambda>c. c \<in> set ''0123456789'') s"

definition decimal_value :: "string \<Rightarrow> nat" where
  "decimal_value ds = foldl (\<lambda>a c. a * 10 + (of_char c - 48)) 0 ds"

text \<open>
  The ascending order of the pruner: by timestamp string, then by sequence number.
\<close>

definition pair_le :: "candidate \<Rightarrow> candidate \<Rightarrow> bool" where
  "pair_le a b = (ts a < ts b \<or> ts a = ts b \<and> seq a \<le> seq b)"

text \<open>An entry that the directory loop turns into a candidate.\<close>

definition is_candidate :: "string \<Rightarrow> string \<Rightarrow> string \<times> node \<Rightarrow> bool" where
  "is_candidate dir base_filename ent =
     (containing_dir (fst ent) = dir \<and> snd ent \<noteq> Directory \<and>
      parse_rotation_suffix (filename_of (fst ent)) base_filename \<noteq> None)"

text \<open>
  The bytes that writing a line puts into the file: the line, and a newline when the
  line does not end with one.
\<close>

definition ends_with_newline :: "string \<Rightarrow> bool" where
  "ends_with_newline line = (line \<noteq> [] \<and> last line = CHR 0x0A)"

definition physical_bytes :: "string \<Rightarrow> string" where
  "physical_bytes line = (if ends_with_newline line then line else line @ [CHR 0x0A])"

text \<open>
  Calls of \<^verbatim>\<open>flush\<close> one after the other, each in the environment of its moment;
  an exception ends the sequence.
\<close>

fun flush_repeatedly ::
  "env list \<Rightarrow> 'a file_sink_scheme \<times> filesystem
     \<Rightarrow> error option \<times> 'a file_sink_scheme \<times> filesystem" where
  "flush_repeatedly [] st = (None, st)"
| "flush_repeatedly (e # es) st =
     (case flush e st of
        (Some err, st1) \<Rightarrow> (Some err, st1)
      | (None, st1) \<Rightarrow> flush_repeatedly es st1)"

text \<open>The calls underneath \<^verbatim>\<open>flush\<close> succeed: \<^verbatim>\<open>fflush\<close>, and \<^verbatim>\<open>fsync\<close> for a durable sink.\<close>

definition underlying_flush_ok :: "env \<Rightarrow> 'a file_sink_scheme \<Rightarrow> bool" where
  "underlying_flush_ok e s =
     (\<not> fails e Op_fflush \<and>
      (if durable_flush s then \<not> fails e Op_fileno \<and> \<not> fails e Op_fsync else True))"

text \<open>The names that a rotation probes, in the order of probing.\<close>

definition rotated_names :: "string \<Rightarrow> string list" where
  "rotated_names rotated_base =
     rotated_base # map (\<lambda>k. rotated_base @ ''.'' @ to_string k) [1..<10000]"

text \<open>
  Every file that exists under a name other than \<open>b\<close> is still there, unchanged.
\<close>

definition keeps_others :: "string \<Rightarrow> filesystem \<Rightarrow> filesystem \<Rightarrow> bool" where
  "keeps_others b fs fs' =
     (\<forall>q. q \<noteq> b \<longrightarrow> map_of fs q \<noteq> None \<longrightarrow> map_of fs' q = map_of fs q)"

text \<open>
  A sink as the constructor leaves it and every operation keeps it: the stream, when
  open, is on the base path.
\<close>

definition sink_on_base :: "rotating_file_sink \<Rightarrow> bool" where
  "sink_on_base s =
     (path s = base_path s \<and> (file_ptr s = None \<or> file_ptr s = Some (base_path s)))"

text \<open>
  A caller's sequence of calls on one sink, each in the environment of its moment. The
  caller contains an exception and goes on with the state it left.
\<close>

datatype sink_call = Write string | Flush

fun run_calls ::
  "(env \<times> sink_call) list \<Rightarrow> rotating_file_sink \<times> filesystem
     \<Rightarrow> rotating_file_sink \<times> filesystem" where
  "run_calls [] st = st"
| "run_calls ((e, Write line) # cs) st = run_calls cs (snd (RotatingFileSink_write e line st))"
| "run_calls ((e, Flush) # cs) st = run_calls cs (snd (flush e st))"

text \<open>
  An environment in which no call of the C library or of \<^verbatim>\<open>std::filesystem\<close> fails and
  \<^verbatim>\<open>fwrite\<close> always writes all the bytes it is given.
\<close>

definition no_failures :: "env \<Rightarrow> bool" where
  "no_failures e = ((\<forall>op. \<not> fails e op) \<and> (\<forall>d. length d \<le> fwrite_count e d))"

subsection \<open>Concrete inputs\<close>

text \<open>
  An environment in which no call fails, \<^verbatim>\<open>fwrite\<close> takes all bytes and the sort
  keeps equal candidates in the order of the listing.
\<close>

definition example_env :: env where
  "example_env =
     \<lparr>fails = (\<lambda>op. False), fwrite_count = length, now_utc = ''20240102_030405'',
      tie_order = (\<lambda>xs. xs)\<rparr>"

text \<open>
  A directory with three rotated files, the base file, a file that only shares the
  prefix, and a directory with a rotated name; the sink keeps two rotated files.
\<close>

definition prune_example_fs :: filesystem where
  "prune_example_fs =
     [(''logs/app.log.20240101_000001'', RegularFile ''c''),
      (''logs/app.log'', RegularFile ''''),
      (''logs/app.log.20240101_000000.2'', RegularFile ''b''),
      (''logs/app.log.20240101_000000'', RegularFile ''a''),
      (''logs/app.log.bak'', RegularFile ''x''),
      (''logs/app.log.20240101_000002'', Directory)]"

definition prune_example_sink :: rotating_file_sink where
  "prune_example_sink =
     \<lparr>path = ''logs/app.log'', durable_flush = False, file_ptr = Some ''logs/app.log'',
      bytes_written = 0, base_path = ''logs/app.log'', max_bytes = 100,
      rotations_performed = 1, max_rotated_files = 2\<rparr>"

text \<open>A durable plain sink, open on a file of three bytes.\<close>

definition example_file_sink :: file_sink where
  "example_file_sink =
     \<lparr>path = ''app.log'', durable_flush = True, file_ptr = Some ''app.log'', bytes_written = 3\<rparr>"

definition example_file_fs :: filesystem where
  "example_file_fs = [(''app.log'', RegularFile ''abc'')]"

text \<open>
  A rotating sink whose next line of five bytes crosses the threshold of ten, beside an
  older rotated file.
\<close>

definition rotation_example_sink :: rotating_file_sink where
  "rotation_example_sink =
     \<lparr>path = ''app.log'', durable_flush = False, file_ptr = Some ''app.log'',
      bytes_written = 6, base_path = ''app.log'', max_bytes = 10,
      rotations_performed = 0, max_rotated_files = 0\<rparr>"

definition rotation_example_fs :: filesystem where
  "rotation_example_fs =
     [(''app.log.20240101_000000'', RegularFile ''a''),
      (''app.log'', RegularFile (''hello'' @ [CHR 0x0A]))]"

text \<open>
  A rotating sink on an empty base file, with a threshold that a line of five bytes
  exceeds by itself.
\<close>

definition oversized_example_sink :: rotating_file_sink where
  "oversized_example_sink =
     \<lparr>path = ''app.log'', durable_flush = False, file_ptr = Some ''app.log'',
      bytes_written = 0, base_path = ''app.log'', max_bytes = 4,
      rotations_performed = 0, max_rotated_files = 0\<rparr>"

definition oversized_example_fs :: filesystem where
  "oversized_example_fs = [(''app.log'', RegularFile [])]"

text \<open>
  A directory in which every name that a rotation at the example clock reading would
  probe exists already.
\<close>

definition exhausted_sink :: rotating_file_sink where
  "exhausted_sink =
     \<lparr>path = ''app.log'', durable_flush = False, file_ptr = Some ''app.log'',
      bytes_written = 3, base_path = ''app.log'', max_bytes = 4,
      rotations_performed = 0, max_rotated_files = 0\<rparr>"

definition exhausted_fs :: filesystem where
  "exhausted_fs =
     (''app.log'', RegularFile ''old'') #
     map (\<lambda>n. (n, RegularFile [])) (rotated_names ''app.log.20240102_030405'')"

text \<open>
  A rotating sink with a threshold of six bytes and a retention limit of two, on an
  empty base file. Every line of two characters after the first triggers a rotation.
\<close>

definition same_second_sink :: rotating_file_sink where
  "same_second_sink =
     \<lparr>path = ''app.log'', durable_flush = False, file_ptr = Some ''app.log'',
      bytes_written = 0, base_path = ''app.log'', max_bytes = 6,
      rotations_performed = 0, max_rotated_files = 2\<rparr>"

definition same_second_fs :: filesystem where
  "same_second_fs = [(''app.log'', RegularFile [])]"

section \<open>Properties\<close>

subsection \<open>Digits and the rotation suffix\<close>

lemma char_eq_code: "(c = d) = ((of_char c :: nat) = of_char d)"
  by (simp add: of_char_eq_iff)

lemma not_digit_iff: "not_digit c = (c \<notin> set ''0123456789'')"
proof -
  have "(c \<in> set ''0123456789'') = ((of_char c :: nat) \<in> {48, 49, 50, 51, 52, 53, 54, 55, 56, 57})"
    by (simp add: char_eq_code [of c])
  also have "\<dots> = (48 \<le> (of_char c :: nat) \<and> (of_char c :: nat) \<le> 57)"
    by (simp only: insert_iff empty_iff) arith
  finally show ?thesis
    by (auto simp add: not_digit_def less_char_def)
qed

lemma list_ex_not_digit: "list_ex not_digit s = (\<not> all_digits s)"
  by (induction s) (simp_all add: all_digits_def not_digit_iff del: set_simps)

lemma parse_seq_foldl:
  "all_digits ds \<Longrightarrow>
   parse_seq (of_nat n) ds = Some (of_nat (foldl (\<lambda>a c. a * 10 + (of_char c - 48)) n ds))"
proof (induction ds arbitrary: n)
  case Nil
  then show ?case by simp
next
  case (Cons c cs)
  from Cons.prems have c: "\<not> not_digit c" and cs: "all_digits cs"
    by (simp_all add: all_digits_def not_digit_iff del: set_simps)
  have "parse_seq (of_nat n) (c # cs) = parse_seq (of_nat (n * 10 + (of_char c - 48))) cs"
    using c by simp
  with Cons.IH [OF cs, of "n * 10 + (of_char c - 48)"] show ?case by simp
qed

lemma parse_seq_value:
  "all_digits ds \<Longrightarrow> parse_seq 0 ds = Some (of_nat (decimal_value ds))"
  using parse_seq_foldl [of ds 0] by (simp add: decimal_value_def)

lemma parse_seq_None: "(parse_seq a ds = None) = (\<not> all_digits ds)"
proof (induction ds arbitrary: a)
  case Nil
  then show ?case by (simp add: all_digits_def)
next
  case (Cons c cs)
  then show ?case
    by (simp add: all_digits_def not_digit_iff del: set_simps)
qed

lemma parse_accepts_shape:
  assumes d8: "length d8 = 8" "all_digits d8"
    and d6: "length d6 = 6" "all_digits d6"
  shows "parse_rotation_suffix (base @ ''.'' @ d8 @ ''_'' @ d6) base = Some (d8 @ ''_'' @ d6, 0)"
    and "ds \<noteq> [] \<Longrightarrow> all_digits ds \<Longrightarrow>
         parse_rotation_suffix (base @ ''.'' @ d8 @ ''_'' @ d6 @ ''.'' @ ds) base =
           Some (d8 @ ''_'' @ d6, of_nat (decimal_value ds))"
  using d8 d6
  by (simp_all add: parse_rotation_suffix_def Let_def list_ex_not_digit nth_append parse_seq_value)

lemma parse_Some_shape:
  assumes "parse_rotation_suffix fn base = Some (t, a)"
  shows "\<exists>d8 d6 sfx. fn = base @ ''.'' @ d8 @ ''_'' @ d6 @ sfx \<and> t = d8 @ ''_'' @ d6 \<and>
           length d8 = 8 \<and> all_digits d8 \<and> length d6 = 6 \<and> all_digits d6 \<and>
           (sfx = [] \<and> a = 0 \<or> (\<exists>ds. sfx = ''.'' @ ds \<and> ds \<noteq> [] \<and> all_digits ds \<and> a = of_nat (decimal_value ds)))"
proof -
  define rest where "rest = drop (Suc (length base)) fn"
  from assms have pre: "take (Suc (length base)) fn = base @ ''.''"
    by (simp add: parse_rotation_suffix_def Let_def split: if_splits)
  then have fn: "fn = base @ ''.'' @ rest"
    unfolding rest_def by (metis append_take_drop_id append.assoc)
  from assms have len: "15 \<le> length rest"
    and t: "t = take 15 rest"
    and d8: "all_digits (take 8 (take 15 rest))"
    and us: "take 15 rest ! 8 = CHR ''_''"
    and d6: "all_digits (drop 9 (take 15 rest))"
    unfolding rest_def
    by (auto simp add: parse_rotation_suffix_def Let_def list_ex_not_digit split: if_splits option.splits)
  define sfx where "sfx = drop 15 rest"
  have rest: "rest = take 8 rest @ ''_'' @ take 6 (drop 9 rest) @ sfx"
  proof -
    have "rest = take 8 rest @ drop 8 rest"
      by (rule append_take_drop_id [symmetric])
    also have "drop 8 rest = rest ! 8 # drop 9 rest"
      using len Cons_nth_drop_Suc [of 8 rest] by simp
    also have "rest ! 8 = CHR ''_''" using us len by simp
    also have "drop 9 rest = take 6 (drop 9 rest) @ drop 6 (drop 9 rest)"
      by (rule append_take_drop_id [symmetric])
    finally show ?thesis by (simp add: sfx_def)
  qed
  have t': "t = take 8 rest @ ''_'' @ take 6 (drop 9 rest)"
  proof -
    have "take 15 rest = take 15 (take 8 rest @ ''_'' @ take 6 (drop 9 rest) @ sfx)"
      using rest by simp
    also have "\<dots> = take 8 rest @ ''_'' @ take 6 (drop 9 rest)"
      using len by simp
    finally show ?thesis using t by simp
  qed
  have d8': "all_digits (take 8 rest)"
    using d8 by (simp add: min_def)
  have d6': "all_digits (take 6 (drop 9 rest))"
    using d6 by (simp add: drop_take)
  have sfx: "sfx = [] \<and> a = 0 \<or>
      (\<exists>ds. sfx = ''.'' @ ds \<and> ds \<noteq> [] \<and> all_digits ds \<and> a = of_nat (decimal_value ds))"
  proof (cases "15 < length rest")
    case False
    with assms pre len show ?thesis
      unfolding sfx_def rest_def
      by (auto simp add: parse_rotation_suffix_def Let_def split: if_splits)
  next
    case True
    with assms pre have dot: "rest ! 15 = CHR ''.''" and ne: "drop 16 rest \<noteq> []"
      and ps: "parse_seq 0 (drop 16 rest) = Some a"
      unfolding rest_def
      by (auto simp add: parse_rotation_suffix_def Let_def split: if_splits option.splits)
    from ps have ad: "all_digits (drop 16 rest)"
      using parse_seq_None [of 0 "drop 16 rest"] by simp
    with ps have a: "a = of_nat (decimal_value (drop 16 rest))"
      by (simp add: parse_seq_value)
    have "sfx = ''.'' @ drop 16 rest"
      using True dot Cons_nth_drop_Suc [of 15 rest] by (simp add: sfx_def)
    with ne ad a show ?thesis by blast
  qed
  have "length (take 8 rest) = 8" "length (take 6 (drop 9 rest)) = 6"
    using len by simp_all
  with fn rest t' d8' d6' sfx show ?thesis
    by metis
qed

lemma parse_accepts_iff_shape:
  "(parse_rotation_suffix fn base \<noteq> None) =
   (\<exists>d8 d6 sfx. fn = base @ ''.'' @ d8 @ ''_'' @ d6 @ sfx \<and>
       length d8 = 8 \<and> all_digits d8 \<and> length d6 = 6 \<and> all_digits d6 \<and>
       (sfx = [] \<or> (\<exists>ds. sfx = ''.'' @ ds \<and> ds \<noteq> [] \<and> all_digits ds)))"
  (is "?L = ?R")
proof
  assume ?L
  then obtain t a where "parse_rotation_suffix fn base = Some (t, a)" by auto
  from parse_Some_shape [OF this] show ?R by metis
next
  assume ?R
  then obtain d8 d6 sfx where fn: "fn = base @ ''.'' @ d8 @ ''_'' @ d6 @ sfx"
    and d: "length d8 = 8" "all_digits d8" "length d6 = 6" "all_digits d6"
    and sfx: "sfx = [] \<or> (\<exists>ds. sfx = ''.'' @ ds \<and> ds \<noteq> [] \<and> all_digits ds)"
    by blast
  from sfx show ?L
  proof
    assume "sfx = []"
    with fn parse_accepts_shape(1) [OF d, of base] show ?L by simp
  next
    assume "\<exists>ds. sfx = ''.'' @ ds \<and> ds \<noteq> [] \<and> all_digits ds"
    then obtain ds where "sfx = ''.'' @ ds" "ds \<noteq> []" "all_digits ds" by blast
    with fn parse_accepts_shape(2) [OF d, of ds base] show ?L by simp
  qed
qed

subsection \<open>Writing and flushing\<close>

lemma append_bytes_twice:
  "append_bytes p b (append_bytes p a fs) = append_bytes p (a @ b) fs"
  by (induction fs) (auto simp add: append_bytes_def split: node.splits)

lemma append_bytes_Nil: "append_bytes p [] fs = fs"
  by (induction fs) (auto simp add: append_bytes_def split: node.splits)

lemma write_all_or_throw_success:
  "write_all_or_throw e f d fs = (None, fs') \<Longrightarrow>
   \<exists>p. f = Some p \<and> fs' = append_bytes p d fs \<and> length d \<le> fwrite_count e d"
  by (auto simp add: write_all_or_throw_def Let_def min_def split: option.splits if_splits)

lemma length_physical_bytes:
  "length (physical_bytes line) = length line + (if ends_with_newline line then 0 else 1)"
  by (simp add: physical_bytes_def)

lemma write_line_locked_success:
  assumes "write_line_locked e line (s, fs) = (None, (s', fs'))"
  shows "\<exists>p. file_ptr s = Some p \<and>
           fs' = append_bytes p (physical_bytes line) fs \<and>
           s' = s\<lparr>bytes_written := bytes_written s + of_nat (length (physical_bytes line))\<rparr>"
proof -
  obtain r1 fs1 where w1: "write_all_or_throw e (file_ptr s) line fs = (r1, fs1)"
    by (cases "write_all_or_throw e (file_ptr s) line fs")
  with assms have r1: "r1 = None"
    by (cases r1) (simp_all add: write_line_locked_def)
  from write_all_or_throw_success [OF w1 [unfolded r1]]
  obtain p where p: "file_ptr s = Some p" and fs1: "fs1 = append_bytes p line fs"
    by blast
  show ?thesis
  proof (cases "ends_with_newline line")
    case True
    with assms w1 r1 p fs1 show ?thesis
      by (auto simp add: write_line_locked_def physical_bytes_def ends_with_newline_def Let_def)
  next
    case False
    let ?s1 = "s\<lparr>bytes_written := bytes_written s + of_nat (length line)\<rparr>"
    obtain r2 fs2 where w2: "write_all_or_throw e (file_ptr ?s1) [CHR 0x0A] fs1 = (r2, fs2)"
      by (cases "write_all_or_throw e (file_ptr ?s1) [CHR 0x0A] fs1")
    from False have nl: "line = [] \<or> last line \<noteq> CHR 0x0A"
      by (auto simp add: ends_with_newline_def)
    from assms w1 r1 w2 nl have r2: "r2 = None"
      by (cases r2) (auto simp add: write_line_locked_def Let_def)
    from write_all_or_throw_success [OF w2 [unfolded r2]] p
    have fs2: "fs2 = append_bytes p [CHR 0x0A] fs1" by simp
    from assms w1 r1 w2 r2 nl have "s' = ?s1\<lparr>bytes_written := bytes_written ?s1 + 1\<rparr>" and "fs' = fs2"
      by (auto simp add: write_line_locked_def Let_def)
    with fs2 fs1 p False show ?thesis
      by (simp add: append_bytes_twice physical_bytes_def add.assoc)
  qed
qed

lemma flush_state: "snd (flush e st) = st"
  by (cases st) (simp add: flush_def flush_locked_def split: option.splits)

lemma flush_ok:
  "file_ptr s \<noteq> None \<Longrightarrow> underlying_flush_ok e s \<Longrightarrow> flush e (s, fs) = (None, (s, fs))"
  by (auto simp add: flush_def flush_locked_def fflush_or_throw_def fsync_or_throw_def
      underlying_flush_ok_def split: option.splits if_splits)

subsection \<open>Probing for a rotated name\<close>

lemma probe_names_find:
  "sq \<le> 10000 \<Longrightarrow>
   probe_names fs rb sq cur =
     (case find (\<lambda>n. \<not> file_exists fs n) (map (\<lambda>k. rb @ ''.'' @ to_string k) [sq..<10000]) of
        Some n \<Rightarrow> n
      | None \<Rightarrow> if sq < 10000 then rb @ ''.'' @ to_string 9999 else cur)"
proof (induction fs rb sq cur rule: probe_names.induct)
  case (1 fs rb sq cur)
  show ?case
  proof (cases "sq < 10000")
    case False
    with "1.prems" show ?thesis
      by (subst probe_names.simps) simp
  next
    case True
    then have upt: "[sq..<10000] = sq # [sq + 1..<10000]"
      by (simp add: upt_conv_Cons)
    show ?thesis
    proof (cases "file_exists fs (rb @ ''.'' @ to_string sq)")
      case False
      with True show ?thesis
        by (subst probe_names.simps) (simp add: upt)
    next
      case ex: True
      have le: "sq + 1 \<le> 10000" using True by simp
      have last: "sq = 9999" if "\<not> sq + 1 < 10000"
        using that True by simp
      have nn: "\<not> \<not> file_exists fs (rb @ ''.'' @ to_string sq)"
        using ex by simp
      note ih = "1.IH" [OF True refl nn le]
      have step: "probe_names fs rb sq cur = probe_names fs rb (sq + 1) (rb @ ''.'' @ to_string sq)"
        using True ex by (subst probe_names.simps) (simp)
      show ?thesis
      proof (cases "sq + 1 < 10000")
        case True
        with step ih ex upt show ?thesis
          by (simp)
      next
        case False
        then have "sq = 9999" by (rule last)
        with step ih ex upt show ?thesis
          by (simp)
      qed
    qed
  qed
qed

lemma pick_rotated_name_find:
  "pick_rotated_name fs rb =
     (case find (\<lambda>n. \<not> file_exists fs n) (rotated_names rb) of
        None \<Rightarrow> Inl No_unique_rotated_filename
      | Some n \<Rightarrow> Inr n)"
proof (cases "file_exists fs rb")
  case False
  then show ?thesis
    by (simp add: pick_rotated_name_def rotated_names_def)
next
  case True
  let ?names = "map (\<lambda>k. rb @ ''.'' @ to_string k) [1..<10000]"
  have probe: "probe_names fs rb 1 rb =
      (case find (\<lambda>n. \<not> file_exists fs n) ?names of
         Some n \<Rightarrow> n | None \<Rightarrow> rb @ ''.'' @ to_string 9999)"
    using probe_names_find [of 1 fs rb rb] by simp
  show ?thesis
  proof (cases "find (\<lambda>n. \<not> file_exists fs n) ?names")
    case None
    then have "\<forall>n\<in>set ?names. file_exists fs n"
      by (simp add: find_None_iff)
    moreover have "rb @ ''.'' @ to_string 9999 \<in> set ?names"
      by (simp)
    ultimately have "file_exists fs (rb @ ''.'' @ to_string 9999)" by blast
    with True None probe show ?thesis
      by (simp add: pick_rotated_name_def rotated_names_def)
  next
    case (Some n)
    then have "\<not> file_exists fs n"
      by (auto simp add: find_Some_iff)
    with True Some probe show ?thesis
      by (simp add: pick_rotated_name_def rotated_names_def)
  qed
qed

lemma pick_rotated_name_Inr:
  assumes "pick_rotated_name fs rb = Inr rn"
  shows "\<not> file_exists fs rn" and "rn \<in> set (rotated_names rb)"
    and "\<exists>i < length (rotated_names rb). rotated_names rb ! i = rn \<and>
           (\<forall>j < i. file_exists fs (rotated_names rb ! j))"
  using assms unfolding pick_rotated_name_find
  by (auto simp add: find_Some_iff split: option.splits)

lemma pick_rotated_name_Inl:
  "(\<exists>err. pick_rotated_name fs rb = Inl err) = (\<forall>n\<in>set (rotated_names rb). file_exists fs n)"
proof -
  have "(\<exists>err. pick_rotated_name fs rb = Inl err) =
        (find (\<lambda>n. \<not> file_exists fs n) (rotated_names rb) = None)"
    unfolding pick_rotated_name_find by (simp split: option.splits)
  also have "\<dots> = (\<forall>n\<in>set (rotated_names rb). file_exists fs n)"
    unfolding find_None_iff by blast
  finally show ?thesis .
qed

lemma pick_rotated_name_Inl_error:
  "pick_rotated_name fs rb = Inl err \<Longrightarrow> err = No_unique_rotated_filename"
  unfolding pick_rotated_name_find by (auto split: option.splits)

lemma rotated_names_longer: "n \<in> set (rotated_names rb) \<Longrightarrow> length rb \<le> length n"
  by (auto simp add: rotated_names_def)

lemma to_string_9999: "to_string 9999 = ''9999''"
  by (simp add: to_string.simps char_of_def bit_0)

subsection \<open>Lookups after file-system operations\<close>

lemma map_of_append_bytes:
  "map_of (append_bytes p d fs) q =
     (if q = p
      then map_option (\<lambda>n. case n of RegularFile c \<Rightarrow> RegularFile (c @ d) | Directory \<Rightarrow> Directory)
             (map_of fs p)
      else map_of fs q)"
  by (induction fs) (auto simp add: append_bytes_def)

lemma map_fst_append_bytes: "map fst (append_bytes p d fs) = map fst fs"
  by (induction fs) (auto simp add: append_bytes_def)

lemma scan_append_bytes:
  "scan_directory dir b (append_bytes p d fs) = scan_directory dir b fs"
  by (induction fs) (auto simp add: append_bytes_def split: node.splits option.splits)

lemma map_of_renamed:
  "src \<noteq> dst \<Longrightarrow>
   map_of (map (\<lambda>(q, m). if q = src then (dst, m) else (q, m))
             (filter (\<lambda>(q, m). q \<noteq> dst) fs)) q =
     (if q = dst then map_of fs src else if q = src then None else map_of fs q)"
proof (induction fs)
  case Nil
  then show ?case by simp
next
  case (Cons a fs)
  obtain k v where a: "a = (k, v)" by (cases a)
  from Cons show ?case
    unfolding a by (cases "k = dst"; cases "k = src"; cases "q = dst"; cases "q = src"; simp)
qed

lemma rename_file_Some:
  assumes "rename_file e src dst fs = Some fs'" and "src \<noteq> dst"
  shows "map_of fs' q =
           (if q = dst then map_of fs src else if q = src then None else map_of fs q)"
    and "map_of fs src \<noteq> None"
proof -
  from assms show ex: "map_of fs src \<noteq> None"
    by (cases "map_of fs src") (simp_all add: rename_file_def split: if_splits)
  then obtain n where n: "map_of fs src = Some n" by blast
  from assms n have "fs' = map (\<lambda>(q, m). if q = src then (dst, m) else (q, m))
                           (filter (\<lambda>(q, m). q \<noteq> dst) fs)"
    by (simp add: rename_file_def split: if_splits)
  then show "map_of fs' q =
           (if q = dst then map_of fs src else if q = src then None else map_of fs q)"
    using map_of_renamed [OF assms(2), of fs q] by (simp only:)
qed

lemma fopen_append_Some:
  assumes "fopen_append e p fs = Some fs'"
  shows "(map_of fs p = None \<and> fs' = fs @ [(p, RegularFile [])]) \<or>
         (\<exists>c. map_of fs p = Some (RegularFile c) \<and> fs' = fs)"
  using assms by (auto simp add: fopen_append_def split: if_splits option.splits node.splits)

lemma map_of_snoc:
  "map_of (fs @ [(p, n)]) q = (if map_of fs q \<noteq> None then map_of fs q
                               else if q = p then Some n else None)"
  by (cases "map_of fs q") (simp_all add: map_add_def)

lemma parse_base_None: "parse_rotation_suffix b b = None"
  by (simp add: parse_rotation_suffix_def)

lemma flush_locked_state: "snd (flush_locked e st) = st"
  by (cases st) (simp add: flush_locked_def split: option.splits)

lemma flush_locked_None:
  "flush_locked e st = (None, st') \<Longrightarrow> st' = st \<and> file_ptr (fst st) \<noteq> None"
  by (cases st)
    (auto simp add: flush_locked_def fflush_or_throw_def split: option.splits if_splits)

subsection \<open>Sorting and deleting candidates\<close>

lemma map_of_filter_key:
  "map_of (filter (\<lambda>(q, n). P q) fs) p = (if P p then map_of fs p else None)"
  by (induction fs) auto

lemma not_cand_less_pair_le: "\<not> cand_less y x \<Longrightarrow> pair_le x y"
  by (auto simp add: cand_less_def pair_le_def split: if_splits)

lemma cand_less_pair_le: "cand_less x y \<Longrightarrow> pair_le x y"
  by (auto simp add: cand_less_def pair_le_def split: if_splits)

lemma pair_le_trans: "pair_le a b \<Longrightarrow> pair_le b c \<Longrightarrow> pair_le a c"
  by (auto simp add: pair_le_def)

lemma mset_insert_sorted: "mset (insert_sorted x ys) = add_mset x (mset ys)"
  by (induction ys) simp_all

lemma mset_foldr_insert_sorted: "mset (foldr insert_sorted xs []) = mset xs"
  by (induction xs) (simp_all add: mset_insert_sorted)

lemma mset_std_sort: "mset (std_sort e xs) = mset xs"
  unfolding std_sort_def by (simp add: mset_foldr_insert_sorted)

lemma set_insert_sorted: "set (insert_sorted x ys) = insert x (set ys)"
  using mset_insert_sorted [of x ys] by (metis set_mset_add_mset_insert set_mset_mset)

lemma sorted_insert_sorted:
  "sorted_wrt pair_le ys \<Longrightarrow> sorted_wrt pair_le (insert_sorted x ys)"
proof (induction ys)
  case Nil
  then show ?case by simp
next
  case (Cons y ys)
  show ?case
  proof (cases "cand_less y x")
    case True
    then have "pair_le y x" by (rule cand_less_pair_le)
    with Cons True show ?thesis
      by (auto simp add: set_insert_sorted)
  next
    case False
    then have xy: "pair_le x y" by (rule not_cand_less_pair_le)
    have "\<forall>z\<in>set ys. pair_le x z"
      using Cons.prems xy by (auto intro: pair_le_trans)
    with Cons.prems xy False show ?thesis by simp
  qed
qed

lemma sorted_foldr_insert_sorted: "sorted_wrt pair_le (foldr insert_sorted xs [])"
  by (induction xs) (simp_all add: sorted_insert_sorted)

lemma sorted_std_sort: "sorted_wrt pair_le (std_sort e xs)"
  unfolding std_sort_def by (rule sorted_foldr_insert_sorted)

lemma pair_le_not_cand_less: "pair_le a b \<Longrightarrow> \<not> cand_less b a"
  by (auto simp add: cand_less_def pair_le_def)

lemma foldr_insert_sorted_id:
  "sorted_wrt pair_le ys \<Longrightarrow> foldr insert_sorted ys [] = ys"
proof (induction ys)
  case Nil
  then show ?case by simp
next
  case (Cons y ys)
  then have ih: "foldr insert_sorted ys [] = ys" by simp
  show ?case
  proof (cases ys)
    case Nil
    then show ?thesis by simp
  next
    case (Cons z zs)
    with Cons.prems have "pair_le y z" by simp
    then have "\<not> cand_less z y" by (rule pair_le_not_cand_less)
    with ih Cons show ?thesis by simp
  qed
qed

lemma std_sort_any_ascending:
  assumes "mset ys = mset xs" and "sorted_wrt pair_le ys" and "tie_order e xs = ys"
  shows "std_sort e xs = ys"
  using assms by (simp add: std_sort_def foldr_insert_sorted_id)

lemma map_cpath_scan:
  "map cpath (scan_directory dir b fs) = map fst (filter (is_candidate dir b) fs)"
  by (induction fs) (auto simp add: is_candidate_def split: option.splits)

lemma distinct_cpath_scan:
  "distinct (map fst fs) \<Longrightarrow> distinct (map cpath (scan_directory dir b fs))"
  unfolding map_cpath_scan by (rule distinct_map_filter)

lemma scan_filter:
  "scan_directory dir b (filter (\<lambda>(q, n). P q) fs) =
   filter (\<lambda>c. P (cpath c)) (scan_directory dir b fs)"
  by (induction fs) (auto split: option.splits)

lemma scan_parse:
  "c \<in> set (scan_directory dir b fs) \<Longrightarrow>
   parse_rotation_suffix (filename_of (cpath c)) b = Some (ts c, seq c) \<and>
   containing_dir (cpath c) = dir \<and> (\<exists>d. (cpath c, RegularFile d) \<in> set fs)"
proof (induction fs)
  case Nil
  then show ?case by simp
next
  case (Cons ent fs)
  obtain q n where ent: "ent = (q, n)" by (cases ent)
  show ?case
    using Cons unfolding ent
    by (cases n) (auto split: if_splits option.splits)
qed

lemma remove_all_filter:
  "\<forall>c\<in>set cs. \<not> fails e (Op_remove (cpath c)) \<Longrightarrow>
   remove_all e cs fs = filter (\<lambda>(q, n). q \<notin> cpath ` set cs) fs"
proof (induction cs arbitrary: fs)
  case Nil
  then show ?case by simp
next
  case (Cons c cs)
  then show ?case
    by (auto simp add: remove_file_def intro!: filter_cong)
qed

lemma remove_all_keeps:
  "p \<notin> cpath ` set cs \<Longrightarrow> map_of (remove_all e cs fs) p = map_of fs p"
proof (induction cs arbitrary: fs)
  case Nil
  then show ?case by simp
next
  case (Cons c cs)
  then show ?case
    using map_of_filter_key [of "\<lambda>q. q \<noteq> cpath c" fs p]
    by (auto simp add: remove_file_def)
qed

lemma prune_unfold:
  assumes "0 < max_rotated_files s"
    and "\<not> fails e (Op_opendir (containing_dir (base_path s)))"
    and "\<not> fails e (Op_readdir (containing_dir (base_path s)))"
    and "max_rotated_files s <
         length (scan_directory (containing_dir (base_path s)) (filename_of (base_path s)) fs)"
  shows "prune_old_rotations_locked e (s, fs) =
         (s, remove_all e
               (take (length (scan_directory (containing_dir (base_path s))
                                 (filename_of (base_path s)) fs) - max_rotated_files s)
                  (std_sort e (scan_directory (containing_dir (base_path s))
                                 (filename_of (base_path s)) fs))) fs)"
  using assms by (simp add: prune_old_rotations_locked_def Let_def)

lemma survivors:
  assumes d: "distinct (map cpath xs)" and m: "mset ys = mset xs"
  shows "set (filter (\<lambda>c. cpath c \<notin> cpath ` set (take k ys)) xs) = set (drop k ys)"
    and "length (filter (\<lambda>c. cpath c \<notin> cpath ` set (take k ys)) xs) = length xs - k"
proof -
  have dy: "distinct (map cpath ys)"
    using d m by (metis distinct_map mset_eq_setD mset_eq_imp_distinct_iff)
  have sets: "set ys = set xs" using m by (rule mset_eq_setD)
  have inj: "inj_on cpath (set ys)" and dys: "distinct ys"
    using dy by (simp_all add: distinct_map)
  have split: "set ys = set (take k ys) \<union> set (drop k ys)"
    by (metis append_take_drop_id set_append)
  have disj: "set (take k ys) \<inter> set (drop k ys) = {}"
    using dys by (metis append_take_drop_id distinct_append)
  have mem: "cpath c \<in> cpath ` set (take k ys) \<longleftrightarrow> c \<in> set (take k ys)" if "c \<in> set ys" for c
    using inj that split by (auto dest: inj_onD)
  show A: "set (filter (\<lambda>c. cpath c \<notin> cpath ` set (take k ys)) xs) = set (drop k ys)"
  proof (rule set_eqI)
    fix c
    have "c \<in> set (filter (\<lambda>c. cpath c \<notin> cpath ` set (take k ys)) xs) \<longleftrightarrow>
          c \<in> set ys \<and> cpath c \<notin> cpath ` set (take k ys)"
      using sets by simp
    also have "\<dots> \<longleftrightarrow> c \<in> set ys \<and> c \<notin> set (take k ys)"
      using mem by blast
    also have "\<dots> \<longleftrightarrow> c \<in> set (drop k ys)"
      using split disj by blast
    finally show "c \<in> set (filter (\<lambda>c. cpath c \<notin> cpath ` set (take k ys)) xs) \<longleftrightarrow>
          c \<in> set (drop k ys)" .
  qed
  have "distinct (filter (\<lambda>c. cpath c \<notin> cpath ` set (take k ys)) xs)"
    using d by (simp add: distinct_map)
  then have "length (filter (\<lambda>c. cpath c \<notin> cpath ` set (take k ys)) xs) = card (set (drop k ys))"
    using A by (metis distinct_card)
  also have "\<dots> = length (drop k ys)"
    using dys by (simp add: distinct_card)
  also have "\<dots> = length xs - k"
    using m by (metis length_drop size_mset)
  finally show "length (filter (\<lambda>c. cpath c \<notin> cpath ` set (take k ys)) xs) = length xs - k" .
qed

lemma prune_cases:
  "prune_old_rotations_locked e (s, fs) = (s, fs) \<or>
   prune_old_rotations_locked e (s, fs) =
     (s, remove_all e
           (take (length (scan_directory (containing_dir (base_path s))
                             (filename_of (base_path s)) fs) - max_rotated_files s)
              (std_sort e (scan_directory (containing_dir (base_path s))
                             (filename_of (base_path s)) fs))) fs)"
  by (simp add: prune_old_rotations_locked_def Let_def)

lemma prune_keeps_unparsed:
  assumes "parse_rotation_suffix (filename_of p) (filename_of (base_path s)) = None"
  shows "map_of (snd (prune_old_rotations_locked e (s, fs))) p = map_of fs p"
proof -
  let ?cands = "scan_directory (containing_dir (base_path s)) (filename_of (base_path s)) fs"
  let ?del = "take (length ?cands - max_rotated_files s) (std_sort e ?cands)"
  have "set ?del \<subseteq> set ?cands"
    by (metis mset_std_sort mset_eq_setD set_take_subset)
  then have "p \<notin> cpath ` set ?del"
    using assms scan_parse by fastforce
  then have "map_of (remove_all e ?del fs) p = map_of fs p"
    by (rule remove_all_keeps)
  with prune_cases [of e s fs] show ?thesis by auto
qed

text \<open>
  What a pruning pass does in terms of the names: with every deletion succeeding, the
  files removed are the first \<open>C - L\<close> candidates of the sorted arrangement, \<open>L\<close>
  candidates remain, and each of them is at least as great in (timestamp, sequence)
  order as each removed one.
\<close>

lemma prune_removes_least_in_name_order:
  assumes wf: "distinct (map fst fs)"
    and limit: "0 < max_rotated_files s"
    and dir: "dir = containing_dir (base_path s)"
    and cands: "cands = scan_directory dir (filename_of (base_path s)) fs"
    and more: "max_rotated_files s < length cands"
    and listing: "\<not> fails e (Op_opendir dir)" "\<not> fails e (Op_readdir dir)"
    and deletions: "\<forall>c\<in>set cands. \<not> fails e (Op_remove (cpath c))"
    and k: "k = length cands - max_rotated_files s"
    and result: "prune_old_rotations_locked e (s, fs) = (s', fs')"
    and remaining: "remaining = scan_directory dir (filename_of (base_path s)) fs'"
  shows "mset (std_sort e cands) = mset cands \<and>
         sorted_wrt pair_le (std_sort e cands) \<and>
         fs' = filter (\<lambda>(q, n). q \<notin> cpath ` set (take k (std_sort e cands))) fs \<and>
         set remaining = set (drop k (std_sort e cands)) \<and>
         length remaining = max_rotated_files s \<and>
         (\<forall>a\<in>set (take k (std_sort e cands)). \<forall>b\<in>set remaining. pair_le a b)"
proof -
  let ?sorted = "std_sort e cands"
  have perm: "mset ?sorted = mset cands" by (rule mset_std_sort)
  have srt: "sorted_wrt pair_le ?sorted" by (rule sorted_std_sort)
  have "set (take k ?sorted) \<subseteq> set cands"
    using perm by (metis mset_eq_setD set_take_subset)
  with deletions have ok: "\<forall>c\<in>set (take k ?sorted). \<not> fails e (Op_remove (cpath c))"
    by blast
  have "prune_old_rotations_locked e (s, fs) = (s, remove_all e (take k ?sorted) fs)"
    using prune_unfold [of s e fs] limit listing more unfolding cands dir k by simp
  with result have fs': "fs' = filter (\<lambda>(q, n). q \<notin> cpath ` set (take k ?sorted)) fs"
    using remove_all_filter [OF ok] by simp
  have rem: "remaining = filter (\<lambda>c. cpath c \<notin> cpath ` set (take k ?sorted)) cands"
    unfolding remaining fs' cands by (rule scan_filter)
  have dc: "distinct (map cpath cands)"
    unfolding cands using wf by (rule distinct_cpath_scan)
  have set_rem: "set remaining = set (drop k ?sorted)"
    unfolding rem using dc perm by (rule survivors(1))
  have "length remaining = length cands - k"
    unfolding rem using dc perm by (rule survivors(2))
  with more k have len_rem: "length remaining = max_rotated_files s" by simp
  have "sorted_wrt pair_le (take k ?sorted @ drop k ?sorted)"
    using srt by simp
  then have "\<forall>a\<in>set (take k ?sorted). \<forall>b\<in>set (drop k ?sorted). pair_le a b"
    unfolding sorted_wrt_append by blast
  with set_rem have great: "\<forall>a\<in>set (take k ?sorted). \<forall>b\<in>set remaining. pair_le a b"
    by simp
  from perm srt fs' set_rem len_rem great show ?thesis by blast
qed

subsection \<open>Rotation\<close>

lemma prune_fst: "fst (prune_old_rotations_locked e (s, fs)) = s"
  using prune_cases [of e s fs] by auto

lemma prune_limit_0:
  "max_rotated_files s = 0 \<Longrightarrow> prune_old_rotations_locked e (s, fs) = (s, fs)"
  by (simp add: prune_old_rotations_locked_def)

lemma remove_file_map_of:
  "map_of (remove_file e p fs) q = None \<or> map_of (remove_file e p fs) q = map_of fs q"
  using map_of_filter_key [of "\<lambda>q. q \<noteq> p" fs q]
  by (cases "fails e (Op_remove p)") (simp_all add: remove_file_def)

lemma remove_all_map_of:
  "map_of (remove_all e cs fs) q = None \<or> map_of (remove_all e cs fs) q = map_of fs q"
proof (induction cs arbitrary: fs)
  case Nil
  then show ?case by simp
next
  case (Cons c cs)
  from Cons [of "remove_file e (cpath c) fs"] remove_file_map_of [of e "cpath c" fs q]
  show ?case by (simp only: remove_all.simps) metis
qed

lemma prune_map_of:
  "map_of (snd (prune_old_rotations_locked e (s, fs))) q = None \<or>
   map_of (snd (prune_old_rotations_locked e (s, fs))) q = map_of fs q"
  using prune_cases [of e s fs] remove_all_map_of [of e _ fs q]
  by (metis snd_conv)

lemma reopen_locked_unfold:
  "reopen_locked e p (s, fs) =
     (case fopen_append e p fs of
        None \<Rightarrow> (Some Fopen_failed, (s\<lparr>path := p, file_ptr := None, bytes_written := 0\<rparr>, fs))
      | Some fs1 \<Rightarrow>
          (None, (s\<lparr>path := p, file_ptr := Some p,
                    bytes_written := file_size_or_zero e fs1 (Some p)\<rparr>, fs1)))"
  by (simp add: reopen_locked_def close_locked_noexcept_def open_locked_or_throw_def
      split: option.splits)

lemma flush_locked_cases:
  "(\<exists>err. flush_locked e (s, fs) = (Some err, (s, fs))) \<or>
   (flush_locked e (s, fs) = (None, (s, fs)) \<and> file_ptr s \<noteq> None)"
  by (simp add: flush_locked_def fflush_or_throw_def fsync_or_throw_def split: option.splits)

lemma rotate_locked_after_flush:
  assumes "flush_locked e (s, fs) = (None, (s, fs))"
  shows "rotate_locked e (s, fs) =
     (case pick_rotated_name fs (base_path s @ ''.'' @ now_utc e) of
        Inl err \<Rightarrow> (Some err, (s\<lparr>file_ptr := None, bytes_written := 0\<rparr>, fs))
      | Inr rn \<Rightarrow>
          (case rename_file e (base_path s) rn fs of
             None \<Rightarrow> (Some Rename_failed, (s\<lparr>file_ptr := None, bytes_written := 0\<rparr>, fs))
           | Some fs3 \<Rightarrow>
               (case fopen_append e (base_path s) fs3 of
                  None \<Rightarrow>
                    (Some Fopen_failed,
                     (s\<lparr>path := base_path s, file_ptr := None, bytes_written := 0\<rparr>, fs3))
                | Some fs4 \<Rightarrow>
                    (None,
                     prune_old_rotations_locked e
                       (s\<lparr>path := base_path s, file_ptr := Some (base_path s),
                          bytes_written := file_size_or_zero e fs4 (Some (base_path s)),
                          rotations_performed := rotations_performed s + 1\<rparr>, fs4)))))"
  using assms
  by (simp add: rotate_locked_def close_locked_noexcept_def make_timestamp_utc_def
      reopen_locked_unfold Let_def split: sum.splits option.splits)

lemma rotate_locked_flush_failed:
  assumes "flush_locked e (s, fs) = (Some err, (s, fs))"
  shows "rotate_locked e (s, fs) = (Some err, (s, fs))"
  using assms by (simp add: rotate_locked_def)

lemma rotated_name_not_base:
  "rn \<in> set (rotated_names (b @ ''.'' @ t)) \<Longrightarrow> rn \<noteq> b"
  using rotated_names_longer [of rn "b @ ''.'' @ t"] by auto

lemma rotate_locked_success:
  assumes "rotate_locked e (s, fs) = (None, (s', fs'))"
  shows "\<exists>rn fs3 fs4.
           pick_rotated_name fs (base_path s @ ''.'' @ now_utc e) = Inr rn \<and>
           rename_file e (base_path s) rn fs = Some fs3 \<and>
           fopen_append e (base_path s) fs3 = Some fs4 \<and>
           (s', fs') =
             prune_old_rotations_locked e
               (s\<lparr>path := base_path s, file_ptr := Some (base_path s),
                  bytes_written := file_size_or_zero e fs4 (Some (base_path s)),
                  rotations_performed := rotations_performed s + 1\<rparr>, fs4)"
proof -
  from flush_locked_cases [of e s fs] assms
  have fl: "flush_locked e (s, fs) = (None, (s, fs))"
    by (auto simp add: rotate_locked_flush_failed)
  from assms show ?thesis
    unfolding rotate_locked_after_flush [OF fl]
    by (auto split: sum.splits option.splits)
qed

lemma rotate_locked_success_facts:
  assumes "rotate_locked e (s, fs) = (None, (s', fs'))"
  shows "\<exists>rn. pick_rotated_name fs (base_path s @ ''.'' @ now_utc e) = Inr rn \<and>
           rn \<noteq> base_path s \<and> \<not> file_exists fs rn \<and>
           map_of fs (base_path s) \<noteq> None \<and>
           s' = s\<lparr>path := base_path s, file_ptr := Some (base_path s), bytes_written := 0,
                   rotations_performed := rotations_performed s + 1\<rparr> \<and>
           map_of fs' (base_path s) = Some (RegularFile []) \<and>
           (map_of fs' rn = None \<or> map_of fs' rn = map_of fs (base_path s)) \<and>
           (\<forall>q. q \<noteq> base_path s \<longrightarrow> q \<noteq> rn \<longrightarrow>
                map_of fs' q = None \<or> map_of fs' q = map_of fs q)"
proof -
  let ?b = "base_path s"
  from rotate_locked_success [OF assms] obtain rn fs3 fs4 where
    pick: "pick_rotated_name fs (?b @ ''.'' @ now_utc e) = Inr rn"
    and ren: "rename_file e ?b rn fs = Some fs3"
    and op: "fopen_append e ?b fs3 = Some fs4"
    and res: "(s', fs') =
             prune_old_rotations_locked e
               (s\<lparr>path := ?b, file_ptr := Some ?b,
                  bytes_written := file_size_or_zero e fs4 (Some ?b),
                  rotations_performed := rotations_performed s + 1\<rparr>, fs4)"
    by blast
  let ?s4 = "s\<lparr>path := ?b, file_ptr := Some ?b,
                  bytes_written := file_size_or_zero e fs4 (Some ?b),
                  rotations_performed := rotations_performed s + 1\<rparr>"
  from pick have nex: "\<not> file_exists fs rn" and mem: "rn \<in> set (rotated_names (?b @ ''.'' @ now_utc e))"
    by (rule pick_rotated_name_Inr)+
  from mem have ne: "?b \<noteq> rn"
    using rotated_name_not_base [of rn ?b "now_utc e"] by blast
  note m3 = rename_file_Some [OF ren ne]
  have b3: "map_of fs3 ?b = None"
    using m3(1) [of ?b] ne by simp
  with op have fs4: "fs4 = fs3 @ [(?b, RegularFile [])]"
    using fopen_append_Some [OF op] by auto
  have m4: "map_of fs4 q =
      (if q = ?b then Some (RegularFile []) else if q = rn then map_of fs ?b else map_of fs q)" for q
    unfolding fs4 map_of_snoc using m3(1) [of q] b3 nex ne
    by (auto simp add: file_exists_def)
  have size0: "file_size_or_zero e fs4 (Some ?b) = 0"
    using m4 [of ?b] by (simp add: file_size_or_zero_def file_length_def)
  have s': "s' = ?s4"
    using res prune_fst [of e ?s4 fs4] by (metis fst_conv)
  have fs': "fs' = snd (prune_old_rotations_locked e (?s4, fs4))"
    using res by (metis snd_conv)
  have keepb: "map_of fs' ?b = map_of fs4 ?b"
    unfolding fs' by (rule prune_keeps_unparsed) (simp add: parse_base_None)
  have any: "map_of fs' q = None \<or> map_of fs' q = map_of fs4 q" for q
    unfolding fs' by (rule prune_map_of)
  show ?thesis
  proof (intro exI [of _ rn] conjI allI impI)
    show "pick_rotated_name fs (?b @ ''.'' @ now_utc e) = Inr rn" by (rule pick)
    show "rn \<noteq> ?b" using ne by simp
    show "\<not> file_exists fs rn" by (rule nex)
    show "map_of fs ?b \<noteq> None" by (rule m3(2))
    show "s' = s\<lparr>path := ?b, file_ptr := Some ?b, bytes_written := 0,
                   rotations_performed := rotations_performed s + 1\<rparr>"
      using s' size0 by simp
    show "map_of fs' ?b = Some (RegularFile [])"
      using keepb m4 [of ?b] by simp
    show "map_of fs' rn = None \<or> map_of fs' rn = map_of fs ?b"
      using any [of rn] m4 [of rn] ne by auto
    show "map_of fs' q = None \<or> map_of fs' q = map_of fs q"
      if "q \<noteq> ?b" "q \<noteq> rn" for q
      using any [of q] m4 [of q] that by auto
  qed
qed

lemma projected_nat:
  "projected s line =
     of_nat (unat (bytes_written s) + length line + (if ends_with_newline line then 0 else 1))"
  by (auto simp add: projected_def ends_with_newline_def)

lemma unat_projected:
  "unat (projected s line) =
     (unat (bytes_written s) + length line + (if ends_with_newline line then 0 else 1)) mod 2 ^ 64"
proof -
  have "unat (of_nat n :: 64 word) = n mod 2 ^ 64" for n
    by (simp add: unat_of_nat)
  then show ?thesis
    by (simp only: projected_nat)
qed

lemma write_no_rotation:
  "\<not> max_bytes s \<le> projected s line \<Longrightarrow>
   RotatingFileSink_write e line (s, fs) = write_line_locked e line (s, fs)"
  by (simp add: RotatingFileSink_write_def)

lemma write_with_rotation:
  "max_bytes s \<le> projected s line \<Longrightarrow>
   RotatingFileSink_write e line (s, fs) =
     (case rotate_locked e (s, fs) of
        (Some err, st1) \<Rightarrow> (Some err, st1)
      | (None, st1) \<Rightarrow> write_line_locked e line st1)"
  by (simp add: RotatingFileSink_write_def)

lemma write_rotated_success:
  assumes rot: "max_bytes s \<le> projected s line"
    and ok: "RotatingFileSink_write e line (s, fs) = (None, (s', fs'))"
  shows "\<exists>s1 fs1. rotate_locked e (s, fs) = (None, (s1, fs1)) \<and>
           write_line_locked e line (s1, fs1) = (None, (s', fs'))"
proof -
  obtain r s1 fs1 where r: "rotate_locked e (s, fs) = (r, (s1, fs1))"
    by (metis surj_pair)
  with rot ok have "r = None"
    by (cases r) (simp_all add: write_with_rotation)
  with rot ok r show ?thesis
    by (simp add: write_with_rotation)
qed

lemma keeps_others_refl: "keeps_others b fs fs"
  by (simp add: keeps_others_def)

lemma keeps_others_trans:
  "keeps_others b fs fs1 \<Longrightarrow> keeps_others b fs1 fs2 \<Longrightarrow> keeps_others b fs fs2"
  unfolding keeps_others_def by metis

lemma keeps_others_append_bytes: "keeps_others b fs (append_bytes b d fs)"
  by (simp add: keeps_others_def map_of_append_bytes)

lemma keeps_others_rename:
  assumes "rename_file e b rn fs = Some fs3" and "\<not> file_exists fs rn" and "b \<noteq> rn"
  shows "keeps_others b fs fs3"
  unfolding keeps_others_def
proof (intro allI impI)
  fix q assume "q \<noteq> b" and ex: "map_of fs q \<noteq> None"
  with assms(2) have "q \<noteq> rn" by (auto simp add: file_exists_def)
  with \<open>q \<noteq> b\<close> show "map_of fs3 q = map_of fs q"
    using rename_file_Some(1) [OF assms(1) assms(3), of q] by simp
qed

lemma keeps_others_snoc: "keeps_others b fs (fs @ [(b, n)])"
  unfolding keeps_others_def map_of_snoc by simp

lemma write_all_or_throw_fs:
  "\<exists>d. snd (write_all_or_throw e f x fs) = (case f of None \<Rightarrow> fs | Some p \<Rightarrow> append_bytes p d fs)"
  by (cases f) (auto simp add: write_all_or_throw_def Let_def)

lemma write_line_locked_any:
  assumes "write_line_locked e line (s, fs) = (r, (s', fs'))"
  shows "\<exists>d w. fs' = (case file_ptr s of None \<Rightarrow> fs | Some p \<Rightarrow> append_bytes p d fs) \<and>
               s' = s\<lparr>bytes_written := w\<rparr>"
proof (cases "file_ptr s")
  case None
  with assms show ?thesis
    by (auto simp add: write_line_locked_def write_all_or_throw_def intro: exI [of _ "bytes_written s"])
next
  case (Some p)
  obtain r1 fs1 where w1: "write_all_or_throw e (Some p) line fs = (r1, fs1)"
    by (metis surj_pair)
  then obtain d1 where fs1: "fs1 = append_bytes p d1 fs"
    by (auto simp add: write_all_or_throw_def Let_def)
  obtain r2 fs2 where w2: "write_all_or_throw e (Some p) [CHR 0x0A] fs1 = (r2, fs2)"
    by (metis surj_pair)
  then obtain d2 where fs2: "fs2 = append_bytes p (d1 @ d2) fs"
    unfolding fs1 by (auto simp add: write_all_or_throw_def Let_def append_bytes_twice)
  from assms Some w1 w2 have "(fs' = fs1 \<or> fs' = fs2) \<and> (\<exists>w. s' = s\<lparr>bytes_written := w\<rparr>)"
    by (cases r1; cases r2)
      (auto simp add: write_line_locked_def Let_def split: if_splits
        intro: exI [of _ "bytes_written s"])
  with fs1 fs2 Some show ?thesis by auto
qed

lemma rotate_locked_failure:
  assumes "rotate_locked e (s, fs) = (Some err, (s', fs'))"
  shows "(s' = s \<and> fs' = fs) \<or>
         (s' = s\<lparr>file_ptr := None, bytes_written := 0\<rparr> \<and> fs' = fs) \<or>
         (s' = s\<lparr>path := base_path s, file_ptr := None, bytes_written := 0\<rparr> \<and>
          (\<exists>rn. \<not> file_exists fs rn \<and> base_path s \<noteq> rn \<and>
                rename_file e (base_path s) rn fs = Some fs'))"
proof -
  from flush_locked_cases [of e s fs] show ?thesis
  proof
    assume "\<exists>err. flush_locked e (s, fs) = (Some err, (s, fs))"
    then obtain err' where "flush_locked e (s, fs) = (Some err', (s, fs))" by blast
    from rotate_locked_flush_failed [OF this] assms show ?thesis by simp
  next
    assume "flush_locked e (s, fs) = (None, (s, fs)) \<and> file_ptr s \<noteq> None"
    then have fl: "flush_locked e (s, fs) = (None, (s, fs))" by blast
    show ?thesis
    proof (cases "pick_rotated_name fs (base_path s @ ''.'' @ now_utc e)")
      case (Inl a)
      with assms show ?thesis
        unfolding rotate_locked_after_flush [OF fl] by simp
    next
      case (Inr rn)
      then have nex: "\<not> file_exists fs rn"
        and ne: "base_path s \<noteq> rn"
        using pick_rotated_name_Inr(1,2) [OF Inr]
          rotated_name_not_base [of rn "base_path s" "now_utc e"] by auto
      show ?thesis
      proof (cases "rename_file e (base_path s) rn fs")
        case None
        with Inr assms show ?thesis
          unfolding rotate_locked_after_flush [OF fl] by simp
      next
        case (Some fs3)
        show ?thesis
        proof (cases "fopen_append e (base_path s) fs3")
          case None
          with Inr Some assms nex ne show ?thesis
            unfolding rotate_locked_after_flush [OF fl] by auto
        next
          case (Some fs4)
          with Inr \<open>rename_file e (base_path s) rn fs = Some fs3\<close> assms show ?thesis
            unfolding rotate_locked_after_flush [OF fl] by simp
        qed
      qed
    qed
  qed
qed

lemma rotate_locked_keeps_others:
  assumes rot: "rotate_locked e (s, fs) = (r, (s', fs'))"
    and c: "r \<noteq> None \<or> max_rotated_files s = 0"
  shows "keeps_others (base_path s) fs fs'"
proof (cases r)
  case (Some err)
  from rotate_locked_failure [OF rot [unfolded Some]] show ?thesis
    by (auto simp add: keeps_others_refl intro: keeps_others_rename)
next
  case None
  with c have lim: "max_rotated_files s = 0" by simp
  from rotate_locked_success [OF rot [unfolded None]] obtain rn fs3 fs4 where
    pick: "pick_rotated_name fs (base_path s @ ''.'' @ now_utc e) = Inr rn"
    and ren: "rename_file e (base_path s) rn fs = Some fs3"
    and op: "fopen_append e (base_path s) fs3 = Some fs4"
    and res: "(s', fs') =
             prune_old_rotations_locked e
               (s\<lparr>path := base_path s, file_ptr := Some (base_path s),
                  bytes_written := file_size_or_zero e fs4 (Some (base_path s)),
                  rotations_performed := rotations_performed s + 1\<rparr>, fs4)"
    by blast
  from res lim have fs': "fs' = fs4"
    by (simp add: prune_limit_0)
  have nex: "\<not> file_exists fs rn" and ne: "base_path s \<noteq> rn"
    using pick_rotated_name_Inr(1,2) [OF pick]
      rotated_name_not_base [of rn "base_path s" "now_utc e"] by auto
  have k3: "keeps_others (base_path s) fs fs3"
    using ren nex ne by (rule keeps_others_rename)
  have k4: "keeps_others (base_path s) fs3 fs4"
    using fopen_append_Some [OF op] by (auto simp add: keeps_others_refl keeps_others_snoc)
  from k3 k4 show ?thesis
    unfolding fs' by (rule keeps_others_trans)
qed

lemma rotate_locked_sink:
  assumes rot: "rotate_locked e (s, fs) = (r, (s', fs'))" and inv: "sink_on_base s"
  shows "sink_on_base s' \<and> base_path s' = base_path s \<and>
         max_rotated_files s' = max_rotated_files s \<and> max_bytes s' = max_bytes s \<and>
         (r = None \<longrightarrow> file_ptr s' = Some (base_path s) \<and>
            rotations_performed s' = rotations_performed s + 1) \<and>
         (r \<noteq> None \<longrightarrow> rotations_performed s' = rotations_performed s)"
proof (cases r)
  case (Some err)
  from rotate_locked_failure [OF rot [unfolded Some]] inv Some show ?thesis
    by (auto simp add: sink_on_base_def)
next
  case None
  from rotate_locked_success_facts [OF rot [unfolded None]] None show ?thesis
    by (auto simp add: sink_on_base_def)
qed

lemma write_line_locked_on_base:
  assumes wl: "write_line_locked e line (s, fs) = (r, (s', fs'))"
    and p: "file_ptr s = None \<or> file_ptr s = Some b"
  shows "keeps_others b fs fs' \<and> (\<exists>w. s' = s\<lparr>bytes_written := w\<rparr>)"
  using write_line_locked_any [OF wl] p
  by (auto simp add: keeps_others_refl keeps_others_append_bytes)

lemma write_outcome:
  assumes inv: "sink_on_base s"
    and w: "RotatingFileSink_write e line (s, fs) = (r, (s', fs'))"
  shows "sink_on_base s' \<and> base_path s' = base_path s \<and>
         max_rotated_files s' = max_rotated_files s \<and> max_bytes s' = max_bytes s \<and>
         (max_rotated_files s = 0 \<or> rotations_performed s' = rotations_performed s
            \<longrightarrow> keeps_others (base_path s) fs fs')"
proof (cases "max_bytes s \<le> projected s line")
  case False
  with w have wl: "write_line_locked e line (s, fs) = (r, (s', fs'))"
    by (simp add: write_no_rotation)
  from inv have p: "file_ptr s = None \<or> file_ptr s = Some (base_path s)"
    by (simp add: sink_on_base_def)
  from write_line_locked_on_base [OF wl p] inv show ?thesis
    by (auto simp add: sink_on_base_def)
next
  case True
  obtain r1 s1 fs1 where rot: "rotate_locked e (s, fs) = (r1, (s1, fs1))"
    by (metis surj_pair)
  note rs = rotate_locked_sink [OF rot inv]
  show ?thesis
  proof (cases r1)
    case (Some err)
    with True w rot have "s' = s1" "fs' = fs1"
      by (simp_all add: write_with_rotation)
    with rs Some rotate_locked_keeps_others [OF rot] show ?thesis
      by simp
  next
    case None
    with True w rot have wl: "write_line_locked e line (s1, fs1) = (r, (s', fs'))"
      by (simp add: write_with_rotation)
    from rs None have p: "file_ptr s1 = None \<or> file_ptr s1 = Some (base_path s)"
      and rp: "rotations_performed s1 = rotations_performed s + 1"
      by simp_all
    from write_line_locked_on_base [OF wl p] obtain w' where
      k: "keeps_others (base_path s) fs1 fs'" and s': "s' = s1\<lparr>bytes_written := w'\<rparr>"
      by blast
    have ne: "rotations_performed s' \<noteq> rotations_performed s"
      unfolding s' using rp by simp
    have "keeps_others (base_path s) fs fs'" if "max_rotated_files s = 0"
      using rotate_locked_keeps_others [OF rot] that k by (blast intro: keeps_others_trans)
    with ne rs s' show ?thesis
      by (auto simp add: sink_on_base_def)
  qed
qed

lemma run_calls_keeps_others:
  "sink_on_base s \<Longrightarrow> max_rotated_files s = 0 \<Longrightarrow>
   keeps_others (base_path s) fs (snd (run_calls cs (s, fs)))"
proof (induction cs arbitrary: s fs)
  case Nil
  then show ?case by (simp add: keeps_others_refl)
next
  case (Cons c cs)
  obtain e call where c: "c = (e, call)" by (cases c)
  show ?case
  proof (cases call)
    case Flush
    with c Cons show ?thesis by (simp add: flush_state)
  next
    case (Write line)
    obtain r s' fs' where w: "RotatingFileSink_write e line (s, fs) = (r, (s', fs'))"
      by (metis surj_pair)
    from write_outcome [OF Cons.prems(1) w] Cons.prems(2)
    have inv': "sink_on_base s'" and b: "base_path s' = base_path s"
      and lim: "max_rotated_files s' = 0" and k: "keeps_others (base_path s) fs fs'"
      by simp_all
    from Cons.IH [OF inv' lim, of fs'] b
    have "keeps_others (base_path s) fs' (snd (run_calls cs (s', fs')))" by simp
    with k have "keeps_others (base_path s) fs (snd (run_calls cs (s', fs')))"
      by (rule keeps_others_trans)
    with c Write w show ?thesis by simp
  qed
qed

lemma RotatingFileSink_sink:
  assumes "RotatingFileSink e p m d r fs = (Inr s, fs')"
  shows "sink_on_base s \<and> base_path s = p \<and> max_bytes s = m \<and> max_rotated_files s = r \<and>
         rotations_performed s = 0 \<and> p \<noteq> [] \<and> m \<noteq> 0"
  using assms
  by (auto simp add: RotatingFileSink_def FileSink_def open_locked_or_throw_def sink_on_base_def
      Let_def split: if_splits option.splits prod.splits sum.splits)

lemma RotatingFileSink_empty_path:
  "RotatingFileSink e [] m d r fs = (Inl FileSink_path_empty, fs)"
  by (simp add: RotatingFileSink_def FileSink_def)

lemma exhausted_all_exist:
  "\<forall>n\<in>set (rotated_names ''app.log.20240102_030405''). file_exists exhausted_fs n"
proof
  fix n assume "n \<in> set (rotated_names ''app.log.20240102_030405'')"
  then have "n \<in> fst ` set exhausted_fs"
    unfolding exhausted_fs_def by (simp add: image_image)
  then show "file_exists exhausted_fs n"
    unfolding file_exists_def by (simp only: map_of_eq_None_iff not_not)
qed


subsection \<open>Writes that do not rotate, and lines larger than the threshold\<close>

lemma write_without_rotation_names:
  assumes "projected s line < max_bytes s"
  shows "scan_directory dir b (snd (snd (RotatingFileSink_write e line (s, fs)))) =
           scan_directory dir b fs \<and>
         map fst (snd (snd (RotatingFileSink_write e line (s, fs)))) = map fst fs \<and>
         rotations_performed (fst (snd (RotatingFileSink_write e line (s, fs)))) =
           rotations_performed s"
proof -
  from assms have no: "\<not> max_bytes s \<le> projected s line" by simp
  obtain r s' fs' where wl: "write_line_locked e line (s, fs) = (r, (s', fs'))"
    by (metis surj_pair)
  from write_line_locked_any [OF wl] obtain d w where
    fs': "fs' = (case file_ptr s of None \<Rightarrow> fs | Some p \<Rightarrow> append_bytes p d fs)"
    and s': "s' = s\<lparr>bytes_written := w\<rparr>"
    by blast
  have "scan_directory dir b fs' = scan_directory dir b fs" "map fst fs' = map fst fs"
    unfolding fs' by (cases "file_ptr s"; simp add: scan_append_bytes map_fst_append_bytes)+
  with s' wl show ?thesis
    unfolding write_no_rotation [OF no] by simp
qed

lemma word64_le_unat: "((a::64 word) \<le> b) = (unat a \<le> unat b)"
  by (rule word_le_nat_alt)

lemma oversized_example_write:
  "RotatingFileSink_write example_env ''hello'' (oversized_example_sink, oversized_example_fs) =
     (None,
      (oversized_example_sink\<lparr>bytes_written := 6, rotations_performed := 1\<rparr>,
       [(''app.log.20240102_030405'', RegularFile []),
        (''app.log'', RegularFile (''hello'' @ [CHR 0x0A]))]))"
  by (simp add: RotatingFileSink_write_def projected_def rotate_locked_def flush_locked_def
      fflush_or_throw_def close_locked_noexcept_def make_timestamp_utc_def
      pick_rotated_name_def file_exists_def rename_file_def reopen_locked_def
      open_locked_or_throw_def fopen_append_def file_size_or_zero_def file_length_def
      prune_old_rotations_locked_def write_line_locked_def write_all_or_throw_def
      append_bytes_def Let_def
      oversized_example_sink_def oversized_example_fs_def example_env_def)

lemma oversized_example_write_again:
  "RotatingFileSink_write example_env ''hello''
     (oversized_example_sink\<lparr>bytes_written := 6, rotations_performed := 1\<rparr>,
       [(''app.log.20240102_030405'', RegularFile []),
        (''app.log'', RegularFile (''hello'' @ [CHR 0x0A]))]) =
     (None,
      (oversized_example_sink\<lparr>bytes_written := 6, rotations_performed := 2\<rparr>,
       [(''app.log.20240102_030405'', RegularFile []),
        (''app.log.20240102_030405.1'', RegularFile (''hello'' @ [CHR 0x0A])),
        (''app.log'', RegularFile (''hello'' @ [CHR 0x0A]))]))"
  by (simp add: RotatingFileSink_write_def projected_def rotate_locked_def flush_locked_def
      fflush_or_throw_def close_locked_noexcept_def make_timestamp_utc_def
      pick_rotated_name_def file_exists_def rename_file_def reopen_locked_def
      open_locked_or_throw_def fopen_append_def file_size_or_zero_def file_length_def
      prune_old_rotations_locked_def write_line_locked_def write_all_or_throw_def
      append_bytes_def Let_def probe_names.simps to_string.simps char_of_def bit_0
      oversized_example_sink_def example_env_def)


subsection \<open>Writes in an environment without failures, and the exact result of a rotating write\<close>

text \<open>
  Five writes within one second of the clock, on the sink with the retention limit of
  two, each evaluated step by step.
\<close>

lemmas write_eval =
  RotatingFileSink_write_def projected_def rotate_locked_def flush_locked_def
  fflush_or_throw_def close_locked_noexcept_def make_timestamp_utc_def
  pick_rotated_name_def file_exists_def rename_file_def reopen_locked_def
  open_locked_or_throw_def fopen_append_def file_size_or_zero_def file_length_def
  prune_old_rotations_locked_def write_line_locked_def write_all_or_throw_def
  append_bytes_def Let_def probe_names.simps to_string.simps char_of_def bit_0
  containing_dir_def parent_path_def filename_of_def parse_rotation_suffix_def
  not_digit_def std_sort_def cand_less_def remove_file_def example_env_def

lemma same_second_write_1:
  "RotatingFileSink_write example_env ''w1'' (same_second_sink, same_second_fs) =
     (None, (same_second_sink\<lparr>bytes_written := 3\<rparr>,
             [(''app.log'', RegularFile (''w1'' @ [CHR 0x0A]))]))"
  by (simp add: write_eval same_second_sink_def same_second_fs_def)

lemma same_second_write_2:
  "RotatingFileSink_write example_env ''w2''
     (same_second_sink\<lparr>bytes_written := 3\<rparr>,
      [(''app.log'', RegularFile (''w1'' @ [CHR 0x0A]))]) =
     (None, (same_second_sink\<lparr>bytes_written := 3, rotations_performed := 1\<rparr>,
             [(''app.log.20240102_030405'', RegularFile (''w1'' @ [CHR 0x0A])),
              (''app.log'', RegularFile (''w2'' @ [CHR 0x0A]))]))"
  by (simp add: write_eval same_second_sink_def)

lemma same_second_write_3:
  "RotatingFileSink_write example_env ''w3''
     (same_second_sink\<lparr>bytes_written := 3, rotations_performed := 1\<rparr>,
             [(''app.log.20240102_030405'', RegularFile (''w1'' @ [CHR 0x0A])),
              (''app.log'', RegularFile (''w2'' @ [CHR 0x0A]))]) =
     (None, (same_second_sink\<lparr>bytes_written := 3, rotations_performed := 2\<rparr>,
             [(''app.log.20240102_030405'', RegularFile (''w1'' @ [CHR 0x0A])),
              (''app.log.20240102_030405.1'', RegularFile (''w2'' @ [CHR 0x0A])),
              (''app.log'', RegularFile (''w3'' @ [CHR 0x0A]))]))"
  by (simp add: write_eval same_second_sink_def)

lemma same_second_write_4:
  "RotatingFileSink_write example_env ''w4''
     (same_second_sink\<lparr>bytes_written := 3, rotations_performed := 2\<rparr>,
             [(''app.log.20240102_030405'', RegularFile (''w1'' @ [CHR 0x0A])),
              (''app.log.20240102_030405.1'', RegularFile (''w2'' @ [CHR 0x0A])),
              (''app.log'', RegularFile (''w3'' @ [CHR 0x0A]))]) =
     (None, (same_second_sink\<lparr>bytes_written := 3, rotations_performed := 3\<rparr>,
             [(''app.log.20240102_030405.1'', RegularFile (''w2'' @ [CHR 0x0A])),
              (''app.log.20240102_030405.2'', RegularFile (''w3'' @ [CHR 0x0A])),
              (''app.log'', RegularFile (''w4'' @ [CHR 0x0A]))]))"
  by (simp add: write_eval same_second_sink_def)

lemma same_second_write_5:
  "RotatingFileSink_write example_env ''w5''
     (same_second_sink\<lparr>bytes_written := 3, rotations_performed := 3\<rparr>,
             [(''app.log.20240102_030405.1'', RegularFile (''w2'' @ [CHR 0x0A])),
              (''app.log.20240102_030405.2'', RegularFile (''w3'' @ [CHR 0x0A])),
              (''app.log'', RegularFile (''w4'' @ [CHR 0x0A]))]) =
     (None, (same_second_sink\<lparr>bytes_written := 3, rotations_performed := 4\<rparr>,
             [(''app.log.20240102_030405.1'', RegularFile (''w2'' @ [CHR 0x0A])),
              (''app.log.20240102_030405.2'', RegularFile (''w3'' @ [CHR 0x0A])),
              (''app.log'', RegularFile (''w5'' @ [CHR 0x0A]))]))"
  by (simp add: write_eval same_second_sink_def)

text \<open>
  Without failures, with an open stream, an existing base file and one free name among
  those probed, the rotation and the write return.
\<close>

lemma write_all_or_throw_total:
  "no_failures e \<Longrightarrow>
   write_all_or_throw e (Some p) d fs = (None, append_bytes p d fs)"
proof -
  assume "no_failures e"
  then have "length d \<le> fwrite_count e d" by (simp add: no_failures_def)
  then have "min (fwrite_count e d) (length d) = length d" by (rule min_absorb2)
  then show ?thesis by (simp add: write_all_or_throw_def Let_def)
qed

lemma write_line_locked_total:
  assumes "no_failures e" and "file_ptr s \<noteq> None"
  shows "fst (write_line_locked e line (s, fs)) = None"
proof -
  from assms(2) obtain p where p: "file_ptr s = Some p" by blast
  show ?thesis
    by (simp add: write_line_locked_def p write_all_or_throw_total [OF assms(1)] Let_def)
qed

lemma rotate_locked_total:
  assumes nf: "no_failures e" and fp: "file_ptr s \<noteq> None" and ne: "base_path s \<noteq> []"
    and ex: "map_of fs (base_path s) \<noteq> None"
    and free: "\<exists>n\<in>set (rotated_names (base_path s @ ''.'' @ now_utc e)). \<not> file_exists fs n"
  shows "\<exists>s1 fs1. rotate_locked e (s, fs) = (None, (s1, fs1)) \<and> file_ptr s1 \<noteq> None"
proof -
  let ?b = "base_path s"
  from nf fp have fl: "flush_locked e (s, fs) = (None, (s, fs))"
    by (auto simp add: flush_locked_def fflush_or_throw_def fsync_or_throw_def no_failures_def)
  from free have "\<not> (\<exists>err. pick_rotated_name fs (?b @ ''.'' @ now_utc e) = Inl err)"
    unfolding pick_rotated_name_Inl by blast
  then obtain rn where pick: "pick_rotated_name fs (?b @ ''.'' @ now_utc e) = Inr rn"
    by (cases "pick_rotated_name fs (?b @ ''.'' @ now_utc e)") auto
  have nex: "\<not> file_exists fs rn" and bn: "?b \<noteq> rn"
    using pick_rotated_name_Inr(1,2) [OF pick]
      rotated_name_not_base [of rn ?b "now_utc e"] by auto
  from ex obtain n where n: "map_of fs ?b = Some n" by blast
  from nex have rnone: "map_of fs rn = None" by (simp add: file_exists_def)
  from nf n bn rnone obtain fs3 where ren: "rename_file e ?b rn fs = Some fs3"
    by (simp add: rename_file_def no_failures_def)
  have b3: "map_of fs3 ?b = None"
    using rename_file_Some(1) [OF ren bn, of ?b] bn by simp
  from nf ne b3 have op: "fopen_append e ?b fs3 = Some (fs3 @ [(?b, RegularFile [])])"
    by (simp add: fopen_append_def no_failures_def)
  obtain s1 fs1 where pr: "prune_old_rotations_locked e
                       (s\<lparr>path := ?b, file_ptr := Some ?b,
                          bytes_written := file_size_or_zero e (fs3 @ [(?b, RegularFile [])]) (Some ?b),
                          rotations_performed := rotations_performed s + 1\<rparr>,
                        fs3 @ [(?b, RegularFile [])]) = (s1, fs1)"
    by (metis surj_pair)
  have "fst (prune_old_rotations_locked e
                       (s\<lparr>path := ?b, file_ptr := Some ?b,
                          bytes_written := file_size_or_zero e (fs3 @ [(?b, RegularFile [])]) (Some ?b),
                          rotations_performed := rotations_performed s + 1\<rparr>,
                        fs3 @ [(?b, RegularFile [])])) =
               s\<lparr>path := ?b, file_ptr := Some ?b,
                          bytes_written := file_size_or_zero e (fs3 @ [(?b, RegularFile [])]) (Some ?b),
                          rotations_performed := rotations_performed s + 1\<rparr>"
    by (rule prune_fst)
  with pr have "file_ptr s1 = Some ?b" by simp
  with pr pick ren op show ?thesis
    unfolding rotate_locked_after_flush [OF fl] by simp
qed

lemma rotate_locked_success_exact:
  assumes "rotate_locked e (s, fs) = (None, (s', fs'))"
  shows "\<exists>rn fs3.
           pick_rotated_name fs (base_path s @ ''.'' @ now_utc e) = Inr rn \<and>
           \<not> file_exists fs rn \<and> rn \<noteq> base_path s \<and>
           rename_file e (base_path s) rn fs = Some fs3 \<and>
           map_of fs (base_path s) \<noteq> None \<and>
           map_of fs3 rn = map_of fs (base_path s) \<and> map_of fs3 (base_path s) = None \<and>
           s' = s\<lparr>path := base_path s, file_ptr := Some (base_path s), bytes_written := 0,
                   rotations_performed := rotations_performed s + 1\<rparr> \<and>
           fs' = snd (prune_old_rotations_locked e
                        (s\<lparr>path := base_path s, file_ptr := Some (base_path s),
                           bytes_written := 0,
                           rotations_performed := rotations_performed s + 1\<rparr>,
                         fs3 @ [(base_path s, RegularFile [])]))"
proof -
  let ?b = "base_path s"
  from rotate_locked_success [OF assms] obtain rn fs3 fs4 where
    pick: "pick_rotated_name fs (?b @ ''.'' @ now_utc e) = Inr rn"
    and ren: "rename_file e ?b rn fs = Some fs3"
    and op: "fopen_append e ?b fs3 = Some fs4"
    and res: "(s', fs') =
             prune_old_rotations_locked e
               (s\<lparr>path := ?b, file_ptr := Some ?b,
                  bytes_written := file_size_or_zero e fs4 (Some ?b),
                  rotations_performed := rotations_performed s + 1\<rparr>, fs4)"
    by blast
  from pick have nex: "\<not> file_exists fs rn"
    and mem: "rn \<in> set (rotated_names (?b @ ''.'' @ now_utc e))"
    by (rule pick_rotated_name_Inr)+
  from mem have ne: "?b \<noteq> rn"
    using rotated_name_not_base [of rn ?b "now_utc e"] by blast
  note m3 = rename_file_Some [OF ren ne]
  have b3: "map_of fs3 ?b = None"
    using m3(1) [of ?b] ne by simp
  have r3: "map_of fs3 rn = map_of fs ?b"
    using m3(1) [of rn] by simp
  from op b3 have fs4: "fs4 = fs3 @ [(?b, RegularFile [])]"
    using fopen_append_Some [OF op] by auto
  have "map_of fs4 ?b = Some (RegularFile [])"
    unfolding fs4 map_of_snoc using b3 by simp
  then have size0: "file_size_or_zero e fs4 (Some ?b) = 0"
    by (simp add: file_size_or_zero_def file_length_def)
  let ?s4 = "s\<lparr>path := ?b, file_ptr := Some ?b, bytes_written := 0,
                  rotations_performed := rotations_performed s + 1\<rparr>"
  from res size0 have res': "(s', fs') = prune_old_rotations_locked e (?s4, fs3 @ [(?b, RegularFile [])])"
    unfolding fs4 by simp
  have s': "s' = ?s4"
    using res' prune_fst [of e ?s4 "fs3 @ [(?b, RegularFile [])]"] by (metis fst_conv)
  have fs': "fs' = snd (prune_old_rotations_locked e (?s4, fs3 @ [(?b, RegularFile [])]))"
    using res' by (metis snd_conv)
  from pick nex ne ren m3(2) r3 b3 s' fs' show ?thesis by blast
qed

lemma write_returns:
  assumes nf: "no_failures e" and fp: "file_ptr s \<noteq> None"
    and rot: "max_bytes s \<le> projected s line \<Longrightarrow>
              base_path s \<noteq> [] \<and> map_of fs (base_path s) \<noteq> None \<and>
              (\<exists>n\<in>set (rotated_names (base_path s @ ''.'' @ now_utc e)). \<not> file_exists fs n)"
  shows "fst (RotatingFileSink_write e line (s, fs)) = None"
proof (cases "max_bytes s \<le> projected s line")
  case False
  then show ?thesis
    unfolding write_no_rotation [OF False] using nf fp by (rule_tac write_line_locked_total)
next
  case True
  from rot [OF True] rotate_locked_total [OF nf fp, of fs] obtain s1 fs1 where
    r: "rotate_locked e (s, fs) = (None, (s1, fs1))" and p1: "file_ptr s1 \<noteq> None"
    by blast
  show ?thesis
    unfolding write_with_rotation [OF True] r
    using write_line_locked_total [OF nf p1, of line fs1] by simp
qed

lemma write_rotating_exact:
  assumes rot: "max_bytes s \<le> projected s line"
    and ok: "RotatingFileSink_write e line (s, fs) = (None, (s', fs'))"
  shows "\<exists>rn fs3.
           pick_rotated_name fs (base_path s @ ''.'' @ now_utc e) = Inr rn \<and>
           \<not> file_exists fs rn \<and> rn \<noteq> base_path s \<and>
           rename_file e (base_path s) rn fs = Some fs3 \<and>
           map_of fs (base_path s) \<noteq> None \<and>
           s' = s\<lparr>path := base_path s, file_ptr := Some (base_path s),
                   bytes_written := of_nat (length (physical_bytes line)),
                   rotations_performed := rotations_performed s + 1\<rparr> \<and>
           fs' = append_bytes (base_path s) (physical_bytes line)
                   (snd (prune_old_rotations_locked e
                        (s\<lparr>path := base_path s, file_ptr := Some (base_path s),
                           bytes_written := 0,
                           rotations_performed := rotations_performed s + 1\<rparr>,
                         fs3 @ [(base_path s, RegularFile [])]))) \<and>
           map_of fs' (base_path s) = Some (RegularFile (physical_bytes line)) \<and>
           (map_of fs' rn = None \<or> map_of fs' rn = map_of fs (base_path s)) \<and>
           (max_rotated_files s = 0 \<longrightarrow> map_of fs' rn = map_of fs (base_path s))"
proof -
  let ?b = "base_path s"
  from write_rotated_success [OF rot ok] obtain s1 fs1 where
    r: "rotate_locked e (s, fs) = (None, (s1, fs1))"
    and wl: "write_line_locked e line (s1, fs1) = (None, (s', fs'))"
    by blast
  let ?s4 = "s\<lparr>path := ?b, file_ptr := Some ?b, bytes_written := 0,
                  rotations_performed := rotations_performed s + 1\<rparr>"
  from rotate_locked_success_exact [OF r] obtain rn fs3 where
    pick: "pick_rotated_name fs (?b @ ''.'' @ now_utc e) = Inr rn"
    and nex: "\<not> file_exists fs rn" and ne: "rn \<noteq> ?b"
    and ren: "rename_file e ?b rn fs = Some fs3"
    and ex: "map_of fs ?b \<noteq> None"
    and r3: "map_of fs3 rn = map_of fs ?b" and b3: "map_of fs3 ?b = None"
    and s1: "s1 = ?s4"
    and fs1: "fs1 = snd (prune_old_rotations_locked e (?s4, fs3 @ [(?b, RegularFile [])]))"
    by blast
  from write_line_locked_success [OF wl] s1
  have fs': "fs' = append_bytes ?b (physical_bytes line) fs1"
    and s': "s' = s1\<lparr>bytes_written := bytes_written s1 + of_nat (length (physical_bytes line))\<rparr>"
    by auto
  have s'': "s' = s\<lparr>path := ?b, file_ptr := Some ?b,
                   bytes_written := of_nat (length (physical_bytes line)),
                   rotations_performed := rotations_performed s + 1\<rparr>"
    unfolding s' s1 by simp
  have m4: "map_of (fs3 @ [(?b, RegularFile [])]) q =
              (if q = ?b then Some (RegularFile []) else map_of fs3 q)" for q
    unfolding map_of_snoc using b3 by auto
  have keepb: "map_of fs1 ?b = map_of (fs3 @ [(?b, RegularFile [])]) ?b"
    unfolding fs1 by (rule prune_keeps_unparsed) (simp add: parse_base_None)
  have any: "map_of fs1 rn = None \<or> map_of fs1 rn = map_of (fs3 @ [(?b, RegularFile [])]) rn"
    unfolding fs1 by (rule prune_map_of)
  have b': "map_of fs' ?b = Some (RegularFile (physical_bytes line))"
    unfolding fs' map_of_append_bytes using keepb m4 [of ?b] by simp
  have rn': "map_of fs' rn = map_of fs1 rn"
    unfolding fs' map_of_append_bytes using ne by simp
  have r': "map_of fs' rn = None \<or> map_of fs' rn = map_of fs ?b"
    using any m4 [of rn] ne r3 rn' by auto
  have lim: "map_of fs' rn = map_of fs ?b" if "max_rotated_files s = 0"
  proof -
    from that have "fs1 = fs3 @ [(?b, RegularFile [])]"
      unfolding fs1 by (simp add: prune_limit_0)
    with rn' m4 [of rn] ne r3 show ?thesis by simp
  qed
  have fs'': "fs' = append_bytes ?b (physical_bytes line)
                 (snd (prune_old_rotations_locked e (?s4, fs3 @ [(?b, RegularFile [])])))"
    unfolding fs' fs1 ..
  have lim': "max_rotated_files s = 0 \<longrightarrow> map_of fs' rn = map_of fs ?b"
    using lim by blast
  show ?thesis
    apply (rule exI [of _ rn])
    apply (rule exI [of _ fs3])
    apply (intro conjI)
    apply (rule pick)
    apply (rule nex)
    apply (rule ne)
    apply (rule ren)
    apply (rule ex)
    apply (rule s'')
    apply (rule fs'')
    apply (rule b')
    apply (rule r')
    apply (rule lim')
    done
qed

lemma rotated_names_head: "rb \<in> set (rotated_names rb)"
  by (simp add: rotated_names_def)

lemma no_failures_example_env: "no_failures example_env"
  by (simp add: no_failures_def example_env_def)

lemma write_returns_state:
  assumes nf: "no_failures e" and fp: "file_ptr s \<noteq> None"
    and rot: "max_bytes s \<le> projected s line \<Longrightarrow>
              base_path s \<noteq> [] \<and> map_of fs (base_path s) \<noteq> None \<and>
              (\<exists>n\<in>set (rotated_names (base_path s @ ''.'' @ now_utc e)). \<not> file_exists fs n)"
  shows "\<exists>s' fs'. RotatingFileSink_write e line (s, fs) = (None, (s', fs'))"
proof -
  have "fst (RotatingFileSink_write e line (s, fs)) = None"
    using nf fp rot by (rule write_returns)
  then show ?thesis
    by (cases "RotatingFileSink_write e line (s, fs)") auto
qed


lemma oversized_projected:
  assumes big: "unat (max_bytes s) \<le> length (physical_bytes line)"
    and nowrap: "unat (bytes_written s) + length (physical_bytes line) < 2 ^ 64"
  shows "max_bytes s \<le> projected s line"
proof -
  have len: "length (physical_bytes line) = length line + (if ends_with_newline line then 0 else 1)"
    by (rule length_physical_bytes)
  have "unat (projected s line) = (unat (bytes_written s) + length (physical_bytes line)) mod 2 ^ 64"
    unfolding unat_projected len by (simp add: add.assoc)
  with nowrap have up: "unat (projected s line) = unat (bytes_written s) + length (physical_bytes line)"
    by simp
  with big show ?thesis
    unfolding word64_le_unat by simp
qed

subsection \<open>Claims about the rotation suffix and the pruner\<close>

text \<open>
  Claim C5. A file name is accepted by \<^verbatim>\<open>parse_rotation_suffix\<close> exactly when it is
  the base file name, a dot, eight digits, an underscore and six digits, optionally
  followed by a dot and a non-empty string of digits. A file whose name is not accepted
  is left as it is by the pruner, also when it shares the prefix.
\<close>

theorem parse_rotation_suffix_accepts_iff:
  "((parse_rotation_suffix fn base \<noteq> None) =
    (\<exists>d8 d6 sfx. fn = base @ ''.'' @ d8 @ ''_'' @ d6 @ sfx \<and>
       length d8 = 8 \<and> all_digits d8 \<and> length d6 = 6 \<and> all_digits d6 \<and>
       (sfx = [] \<or> (\<exists>ds. sfx = ''.'' @ ds \<and> ds \<noteq> [] \<and> all_digits ds)))) \<and>
   (parse_rotation_suffix (filename_of p) (filename_of (base_path s)) = None \<longrightarrow>
      map_of (snd (prune_old_rotations_locked e (s, fs))) p = map_of fs p)"
  using parse_accepts_iff_shape [of fn base] prune_keeps_unparsed [of p s e fs]
  by blast

theorem parse_rotation_suffix_accepts_iff_witness:
  "parse_rotation_suffix (filename_of ''logs/app.log.bak'') (filename_of (base_path prune_example_sink)) = None \<and>
   map_of (snd (prune_old_rotations_locked example_env (prune_example_sink, prune_example_fs)))
     ''logs/app.log.bak'' = Some (RegularFile ''x'') \<and>
   parse_rotation_suffix ''app.log.20240101_000000.2'' ''app.log'' \<noteq> None"
proof -
  have h: "parse_rotation_suffix (filename_of ''logs/app.log.bak'')
             (filename_of (base_path prune_example_sink)) = None"
    by (simp add: prune_example_sink_def filename_of_def parse_rotation_suffix_def)
  have f: "map_of prune_example_fs ''logs/app.log.bak'' = Some (RegularFile ''x'')"
    by (simp add: prune_example_fs_def)
  have "\<exists>d8 d6 sfx. ''app.log.20240101_000000.2'' = ''app.log'' @ ''.'' @ d8 @ ''_'' @ d6 @ sfx \<and>
       length d8 = 8 \<and> all_digits d8 \<and> length d6 = 6 \<and> all_digits d6 \<and>
       (sfx = [] \<or> (\<exists>ds. sfx = ''.'' @ ds \<and> ds \<noteq> [] \<and> all_digits ds))"
    by (rule exI [of _ "''20240101''"], rule exI [of _ "''000000''"], rule exI [of _ "''.2''"])
      (simp add: all_digits_def)
  with h f show ?thesis
    using parse_rotation_suffix_accepts_iff [of "''app.log.20240101_000000.2''" "''app.log''"
        "''logs/app.log.bak''" prune_example_sink example_env prune_example_fs]
    by simp
qed

text \<open>
  Claim C10. The sequence suffix is read into an unsigned 32-bit accumulator that wraps
  around: after a well-formed timestamp every non-empty string of digits is accepted,
  the sequence number is the value of the digits modulo \<open>2 ^ 32\<close>, and that number is
  the one stored in the candidate that the pruner sorts.
\<close>

theorem parse_seq_wraps:
  assumes "length d8 = 8" "all_digits d8" "length d6 = 6" "all_digits d6"
    and "ds \<noteq> []" "all_digits ds"
    and "fn = base @ ''.'' @ d8 @ ''_'' @ d6 @ ''.'' @ ds"
  shows "\<exists>a. parse_seq 0 ds = Some a \<and>
             parse_rotation_suffix fn base = Some (d8 @ ''_'' @ d6, a) \<and>
             unat a = decimal_value ds mod 2 ^ 32 \<and>
             (containing_dir q = dir \<and> filename_of q = fn \<longrightarrow>
                scan_directory dir base [(q, RegularFile c)] =
                  [\<lparr>cpath = q, ts = d8 @ ''_'' @ d6, seq = a\<rparr>])"
proof -
  let ?a = "of_nat (decimal_value ds) :: 32 word"
  have 1: "parse_seq 0 ds = Some ?a"
    using assms(6) by (rule parse_seq_value)
  have 2: "parse_rotation_suffix fn base = Some (d8 @ ''_'' @ d6, ?a)"
    unfolding assms(7) using assms(1-6) by (rule parse_accepts_shape(2))
  have 3: "unat ?a = decimal_value ds mod 2 ^ 32"
    by (simp add: unat_of_nat)
  from 1 2 3 show ?thesis by simp
qed

theorem parse_seq_wraps_witness:
  "decimal_value ''4294967297'' = 4294967297 \<and>
   parse_rotation_suffix ''app.log.20240101_000000.4294967297'' ''app.log'' =
     Some (''20240101_000000'', 1) \<and>
   cand_less \<lparr>cpath = ''logs/app.log.20240101_000000.4294967297'', ts = ''20240101_000000'', seq = 1\<rparr>
             \<lparr>cpath = ''logs/app.log.20240101_000000.2'', ts = ''20240101_000000'', seq = 2\<rparr>"
proof -
  have "\<exists>a. parse_seq 0 ''4294967297'' = Some a \<and>
             parse_rotation_suffix ''app.log.20240101_000000.4294967297'' ''app.log'' = Some (''20240101'' @ ''_'' @ ''000000'', a) \<and>
             unat a = decimal_value ''4294967297'' mod 2 ^ 32 \<and>
             (containing_dir ''logs/app.log.20240101_000000.4294967297'' = ''logs'' \<and> filename_of ''logs/app.log.20240101_000000.4294967297'' = ''app.log.20240101_000000.4294967297'' \<longrightarrow>
                scan_directory ''logs'' ''app.log'' [(''logs/app.log.20240101_000000.4294967297'', RegularFile [])] =
                  [\<lparr>cpath = ''logs/app.log.20240101_000000.4294967297'', ts = ''20240101'' @ ''_'' @ ''000000'', seq = a\<rparr>])"
    by (rule parse_seq_wraps) (simp_all add: all_digits_def)
  then show ?thesis
    by (simp add: decimal_value_def cand_less_def parse_rotation_suffix_def not_digit_def)
qed

subsection \<open>Claims about the plain sink\<close>

text \<open>
  Claim C7. A successful \<^verbatim>\<open>write_line_locked\<close> appends the line to the open file,
  followed by a newline exactly when the line does not end with one, and adds to the
  bytes-written counter the number of bytes appended: the length of the line, plus one
  when the newline was added. The counter is a \<^verbatim>\<open>uint64_t\<close>.
\<close>

theorem write_line_locked_counts_physical_bytes:
  assumes "write_line_locked e line (s, fs) = (None, (s', fs'))"
  shows "\<exists>p. file_ptr s = Some p \<and>
           fs' = append_bytes p (physical_bytes line) fs \<and>
           physical_bytes line = (if ends_with_newline line then line else line @ [CHR 0x0A]) \<and>
           bytes_written s' = bytes_written s + of_nat (length (physical_bytes line)) \<and>
           length (physical_bytes line) = length line + (if ends_with_newline line then 0 else 1)"
  using write_line_locked_success [OF assms]
  by (auto simp add: physical_bytes_def)

theorem write_line_locked_counts_physical_bytes_witness:
  "write_line_locked example_env ''hi'' (example_file_sink, example_file_fs) =
     (None, (example_file_sink\<lparr>bytes_written := 6\<rparr>,
             [(''app.log'', RegularFile (''abchi'' @ [CHR 0x0A]))])) \<and>
   physical_bytes ''hi'' = ''hi'' @ [CHR 0x0A] \<and>
   length (physical_bytes ''hi'') = 3"
proof -
  have h: "write_line_locked example_env ''hi'' (example_file_sink, example_file_fs) =
     (None, (example_file_sink\<lparr>bytes_written := 6\<rparr>,
             [(''app.log'', RegularFile (''abchi'' @ [CHR 0x0A]))]))"
    by (simp add: write_line_locked_def write_all_or_throw_def append_bytes_def
        example_env_def example_file_sink_def example_file_fs_def Let_def)
  from write_line_locked_counts_physical_bytes [OF h]
  have "physical_bytes ''hi'' = (if ends_with_newline ''hi'' then ''hi'' else ''hi'' @ [CHR 0x0A])"
    and "length (physical_bytes ''hi'') = length ''hi'' + (if ends_with_newline ''hi'' then 0 else 1)"
    by blast+
  with h show ?thesis
    by (simp add: ends_with_newline_def)
qed

text \<open>
  Claim C8. On a sink with an open file, any number of calls of \<^verbatim>\<open>flush\<close> with no
  write in between, each with its underlying flush succeeding, raise no error and leave
  the sink (its path and its bytes-written counter among the fields) and the file
  system, so the content and size of every file, as they were.
\<close>

theorem flush_idempotent:
  assumes "file_ptr s \<noteq> None" and "\<forall>e\<in>set es. underlying_flush_ok e s"
  shows "flush_repeatedly es (s, fs) = (None, (s, fs))"
  using assms by (induction es) (simp_all add: flush_ok)

theorem flush_idempotent_witness:
  "flush_repeatedly [example_env, example_env, example_env] (example_file_sink, example_file_fs) =
     (None, (example_file_sink, example_file_fs))"
proof -
  have p: "file_ptr example_file_sink \<noteq> None"
    by (simp add: example_file_sink_def)
  have ok: "\<forall>e\<in>set [example_env, example_env, example_env].
              underlying_flush_ok e example_file_sink"
    by (simp add: underlying_flush_ok_def example_env_def)
  from flush_idempotent [OF p ok] show ?thesis .
qed

subsection \<open>Claims about rotation\<close>



text \<open>
  Claim C2. Constructing a \<^verbatim>\<open>RotatingFileSink\<close> with an empty path or with
  \<open>max_bytes = 0\<close> is to raise a configuration error before any file is touched. For the
  empty path it does (\<open>RotatingFileSink_empty_path\<close>). With \<open>max_bytes = 0\<close> and a
  non-empty path the base-class constructor runs before the check: on an empty file
  system the constructor creates the base file and then raises the configuration error,
  and when the file cannot be opened it raises the error of \<^verbatim>\<open>fopen\<close> instead.
\<close>

theorem RotatingFileSink_zero_max_bytes_touches_file:
  "RotatingFileSink example_env ''app.log'' 0 False 0 [] =
     (Inl RotatingFileSink_max_bytes_zero, [(''app.log'', RegularFile [])]) \<and>
   RotatingFileSink (example_env\<lparr>fails := (\<lambda>op. op = Op_fopen ''app.log'')\<rparr>)
       ''app.log'' 0 False 0 [] =
     (Inl Fopen_failed, [])"
  by (simp add: RotatingFileSink_def FileSink_def open_locked_or_throw_def fopen_append_def
      example_env_def file_size_or_zero_def file_length_def)

text \<open>
  Claim C3. When every probed name exists, the rotation is to fail with no rename,
  leaving the base file untouched and still the active file. The names are probed in
  order and the first free one is taken (\<open>pick_rotated_name_find\<close>), and on exhaustion
  nothing is renamed and the file system is unchanged; but the stream was closed before
  the probing and is not reopened: the write returns the error with a null handle, and
  every later write and flush fails on it.
\<close>

theorem rotation_exhaustion_closes_sink:
  "RotatingFileSink_write example_env ''x'' (exhausted_sink, exhausted_fs) =
     (Some No_unique_rotated_filename,
      (exhausted_sink\<lparr>file_ptr := None, bytes_written := 0\<rparr>, exhausted_fs)) \<and>
   RotatingFileSink_write example_env ''x''
       (exhausted_sink\<lparr>file_ptr := None, bytes_written := 0\<rparr>, exhausted_fs) =
     (Some File_handle_null,
      (exhausted_sink\<lparr>file_ptr := None, bytes_written := 0\<rparr>, exhausted_fs)) \<and>
   flush example_env (exhausted_sink\<lparr>file_ptr := None, bytes_written := 0\<rparr>, exhausted_fs) =
     (Some File_handle_null,
      (exhausted_sink\<lparr>file_ptr := None, bytes_written := 0\<rparr>, exhausted_fs))"
proof -
  have pick: "pick_rotated_name exhausted_fs (base_path exhausted_sink @ ''.'' @ now_utc example_env)
                = Inl No_unique_rotated_filename"
  proof -
    have rb: "base_path exhausted_sink @ ''.'' @ now_utc example_env = ''app.log.20240102_030405''"
      by (simp add: exhausted_sink_def example_env_def)
    from exhausted_all_exist obtain err where
      "pick_rotated_name exhausted_fs ''app.log.20240102_030405'' = Inl err"
      unfolding pick_rotated_name_Inl [symmetric] by blast
    with pick_rotated_name_Inl_error [OF this] show ?thesis
      unfolding rb by simp
  qed
  have fl: "flush_locked example_env (exhausted_sink, exhausted_fs) = (None, (exhausted_sink, exhausted_fs))"
    by (simp add: flush_locked_def fflush_or_throw_def exhausted_sink_def example_env_def)
  have rot: "rotate_locked example_env (exhausted_sink, exhausted_fs) =
      (Some No_unique_rotated_filename,
       (exhausted_sink\<lparr>file_ptr := None, bytes_written := 0\<rparr>, exhausted_fs))"
    unfolding rotate_locked_after_flush [OF fl] pick by simp
  have big: "max_bytes exhausted_sink \<le> projected exhausted_sink ''x''"
    by (simp add: projected_def exhausted_sink_def)
  have 1: "RotatingFileSink_write example_env ''x'' (exhausted_sink, exhausted_fs) =
     (Some No_unique_rotated_filename,
      (exhausted_sink\<lparr>file_ptr := None, bytes_written := 0\<rparr>, exhausted_fs))"
    unfolding write_with_rotation [OF big] rot by simp
  have small: "\<not> max_bytes (exhausted_sink\<lparr>file_ptr := None, bytes_written := 0\<rparr>)
                   \<le> projected (exhausted_sink\<lparr>file_ptr := None, bytes_written := 0\<rparr>) ''x''"
    by (simp add: projected_def exhausted_sink_def)
  have 2: "RotatingFileSink_write example_env ''x''
       (exhausted_sink\<lparr>file_ptr := None, bytes_written := 0\<rparr>, exhausted_fs) =
     (Some File_handle_null,
      (exhausted_sink\<lparr>file_ptr := None, bytes_written := 0\<rparr>, exhausted_fs))"
    unfolding write_no_rotation [OF small]
    by (simp add: write_line_locked_def write_all_or_throw_def)
  have 3: "flush example_env (exhausted_sink\<lparr>file_ptr := None, bytes_written := 0\<rparr>, exhausted_fs) =
     (Some File_handle_null,
      (exhausted_sink\<lparr>file_ptr := None, bytes_written := 0\<rparr>, exhausted_fs))"
    by (simp add: flush_def flush_locked_def fflush_or_throw_def)
  from 1 2 3 show ?thesis by (intro conjI)
qed

subsection \<open>Claim about which rotated files the pruner keeps\<close>

text \<open>
  Claim C4. A pruning pass with a retention limit \<open>L > 0\<close> over \<open>C > L\<close> candidates is to
  delete the oldest \<open>C - L\<close> rotated files and to keep the \<open>L\<close> most recently created.
  The pass deletes the first \<open>C - L\<close> candidates in the order of the pair of timestamp
  and sequence number (\<open>prune_removes_least_in_name_order\<close>), but among rotations within
  one second of the clock that order is not the order of creation: the name without a
  sequence number sorts first, and once pruning has deleted the file of that name the
  next rotation takes the name again. With the limit 2 and five writes within one
  second, each after the first triggering a rotation, the files on disk after the fourth
  write hold the lines \<open>w2\<close>, \<open>w3\<close> and \<open>w4\<close>; the fifth write rotates the file of \<open>w4\<close>
  to the name without a sequence number, and the pruning pass of that rotation, with
  three candidates, deletes this file, the one created last, and keeps the two older
  ones.
\<close>

theorem same_second_rotation_prunes_newest:
  "run_calls [(example_env, Write ''w1''), (example_env, Write ''w2''),
              (example_env, Write ''w3''), (example_env, Write ''w4'')]
     (same_second_sink, same_second_fs) =
     (same_second_sink\<lparr>bytes_written := 3, rotations_performed := 3\<rparr>,
      [(''app.log.20240102_030405.1'', RegularFile (''w2'' @ [CHR 0x0A])),
       (''app.log.20240102_030405.2'', RegularFile (''w3'' @ [CHR 0x0A])),
       (''app.log'', RegularFile (''w4'' @ [CHR 0x0A]))]) \<and>
   run_calls [(example_env, Write ''w1''), (example_env, Write ''w2''),
              (example_env, Write ''w3''), (example_env, Write ''w4''),
              (example_env, Write ''w5'')]
     (same_second_sink, same_second_fs) =
     (same_second_sink\<lparr>bytes_written := 3, rotations_performed := 4\<rparr>,
      [(''app.log.20240102_030405.1'', RegularFile (''w2'' @ [CHR 0x0A])),
       (''app.log.20240102_030405.2'', RegularFile (''w3'' @ [CHR 0x0A])),
       (''app.log'', RegularFile (''w5'' @ [CHR 0x0A]))]) \<and>
   prune_old_rotations_locked example_env
     (same_second_sink,
      [(''app.log.20240102_030405.1'', RegularFile (''w2'' @ [CHR 0x0A])),
       (''app.log.20240102_030405.2'', RegularFile (''w3'' @ [CHR 0x0A])),
       (''app.log.20240102_030405'', RegularFile (''w4'' @ [CHR 0x0A])),
       (''app.log'', RegularFile [])]) =
     (same_second_sink,
      [(''app.log.20240102_030405.1'', RegularFile (''w2'' @ [CHR 0x0A])),
       (''app.log.20240102_030405.2'', RegularFile (''w3'' @ [CHR 0x0A])),
       (''app.log'', RegularFile [])])"
proof -
  have 4: "run_calls [(example_env, Write ''w1''), (example_env, Write ''w2''),
              (example_env, Write ''w3''), (example_env, Write ''w4'')]
     (same_second_sink, same_second_fs) =
     (same_second_sink\<lparr>bytes_written := 3, rotations_performed := 3\<rparr>,
      [(''app.log.20240102_030405.1'', RegularFile (''w2'' @ [CHR 0x0A])),
       (''app.log.20240102_030405.2'', RegularFile (''w3'' @ [CHR 0x0A])),
       (''app.log'', RegularFile (''w4'' @ [CHR 0x0A]))])"
    by (simp only: run_calls.simps same_second_write_1 same_second_write_2
        same_second_write_3 same_second_write_4 snd_conv)
  have 5: "run_calls [(example_env, Write ''w1''), (example_env, Write ''w2''),
              (example_env, Write ''w3''), (example_env, Write ''w4''),
              (example_env, Write ''w5'')]
     (same_second_sink, same_second_fs) =
     (same_second_sink\<lparr>bytes_written := 3, rotations_performed := 4\<rparr>,
      [(''app.log.20240102_030405.1'', RegularFile (''w2'' @ [CHR 0x0A])),
       (''app.log.20240102_030405.2'', RegularFile (''w3'' @ [CHR 0x0A])),
       (''app.log'', RegularFile (''w5'' @ [CHR 0x0A]))])"
    by (simp only: run_calls.simps same_second_write_1 same_second_write_2
        same_second_write_3 same_second_write_4 same_second_write_5 snd_conv)
  have p: "prune_old_rotations_locked example_env
     (same_second_sink,
      [(''app.log.20240102_030405.1'', RegularFile (''w2'' @ [CHR 0x0A])),
       (''app.log.20240102_030405.2'', RegularFile (''w3'' @ [CHR 0x0A])),
       (''app.log.20240102_030405'', RegularFile (''w4'' @ [CHR 0x0A])),
       (''app.log'', RegularFile [])]) =
     (same_second_sink,
      [(''app.log.20240102_030405.1'', RegularFile (''w2'' @ [CHR 0x0A])),
       (''app.log.20240102_030405.2'', RegularFile (''w3'' @ [CHR 0x0A])),
       (''app.log'', RegularFile [])])"
    by (simp add: write_eval same_second_sink_def)
  from 4 5 p show ?thesis by (intro conjI)
qed

subsection \<open>Claims about when pruning runs and about oversized lines\<close>

text \<open>
  Claim C6. Pruning runs only right after a successful rotation, and never with a
  retention limit of 0. A flush leaves the sink and the file system as they are. A
  write that does not trigger a rotation leaves the names on disk, and so the rotated
  files in any directory, as they are. For a sink on its base path, a write that
  completes no rotation, or any write under the limit 0, keeps every existing file
  other than the base file unchanged; under the limit 0 so does every sequence of writes
  and flushes, however many rotations occur; and the pruner itself returns at once.
\<close>

theorem pruning_only_after_rotation:
  "snd (flush e (s, fs)) = (s, fs) \<and>
   (projected s line < max_bytes s \<longrightarrow>
      scan_directory dir b (snd (snd (RotatingFileSink_write e line (s, fs)))) =
        scan_directory dir b fs \<and>
      map fst (snd (snd (RotatingFileSink_write e line (s, fs)))) = map fst fs) \<and>
   (sink_on_base s \<longrightarrow>
      (max_rotated_files s = 0 \<or>
       rotations_performed (fst (snd (RotatingFileSink_write e line (s, fs)))) =
         rotations_performed s \<longrightarrow>
       keeps_others (base_path s) fs (snd (snd (RotatingFileSink_write e line (s, fs)))))) \<and>
   (sink_on_base s \<longrightarrow> max_rotated_files s = 0 \<longrightarrow>
      keeps_others (base_path s) fs (snd (run_calls cs (s, fs)))) \<and>
   (max_rotated_files s = 0 \<longrightarrow> prune_old_rotations_locked e (s, fs) = (s, fs))"
proof -
  obtain r s' fs' where w: "RotatingFileSink_write e line (s, fs) = (r, (s', fs'))"
    by (metis surj_pair)
  have 1: "snd (flush e (s, fs)) = (s, fs)" by (rule flush_state)
  have 2: "scan_directory dir b (snd (snd (RotatingFileSink_write e line (s, fs)))) =
        scan_directory dir b fs \<and>
      map fst (snd (snd (RotatingFileSink_write e line (s, fs)))) = map fst fs"
    if "projected s line < max_bytes s"
    using write_without_rotation_names [OF that] by blast
  have 3: "keeps_others (base_path s) fs (snd (snd (RotatingFileSink_write e line (s, fs))))"
    if "sink_on_base s"
      and "max_rotated_files s = 0 \<or>
       rotations_performed (fst (snd (RotatingFileSink_write e line (s, fs)))) =
         rotations_performed s"
    using write_outcome [OF that(1) w] that(2) unfolding w by auto
  have 4: "keeps_others (base_path s) fs (snd (run_calls cs (s, fs)))"
    if "sink_on_base s" "max_rotated_files s = 0"
    using that by (rule run_calls_keeps_others)
  have 5: "prune_old_rotations_locked e (s, fs) = (s, fs)" if "max_rotated_files s = 0"
    using that by (rule prune_limit_0)
  from 1 2 3 4 5 show ?thesis by blast
qed

theorem pruning_only_after_rotation_witness:
  "projected rotation_example_sink ''hi'' < max_bytes rotation_example_sink \<and>
   sink_on_base rotation_example_sink \<and>
   max_rotated_files rotation_example_sink = 0 \<and>
   map fst (snd (snd (RotatingFileSink_write example_env ''hi''
                        (rotation_example_sink, rotation_example_fs)))) =
     [''app.log.20240101_000000'', ''app.log''] \<and>
   keeps_others ''app.log'' rotation_example_fs
     (snd (run_calls [(example_env, Write ''world''), (example_env, Flush),
                      (example_env, Write ''again'')]
             (rotation_example_sink, rotation_example_fs))) \<and>
   map_of (snd (run_calls [(example_env, Write ''world''), (example_env, Flush),
                           (example_env, Write ''again'')]
                  (rotation_example_sink, rotation_example_fs)))
     ''app.log.20240101_000000'' = Some (RegularFile ''a'')"
proof -
  let ?cs = "[(example_env, Write ''world''), (example_env, Flush), (example_env, Write ''again'')]"
  have h1: "projected rotation_example_sink ''hi'' < max_bytes rotation_example_sink"
    by (simp add: projected_def rotation_example_sink_def)
  have h2: "sink_on_base rotation_example_sink"
    by (simp add: sink_on_base_def rotation_example_sink_def)
  have h3: "max_rotated_files rotation_example_sink = 0"
    by (simp add: rotation_example_sink_def)
  have b: "base_path rotation_example_sink = ''app.log''"
    by (simp add: rotation_example_sink_def)
  from pruning_only_after_rotation
    [of example_env rotation_example_sink rotation_example_fs "''hi''" "''.''" "''app.log''" ?cs]
    h1 h2 h3
  have names: "map fst (snd (snd (RotatingFileSink_write example_env ''hi''
                        (rotation_example_sink, rotation_example_fs)))) =
                 map fst rotation_example_fs"
    and keeps: "keeps_others (base_path rotation_example_sink) rotation_example_fs
                  (snd (run_calls ?cs (rotation_example_sink, rotation_example_fs)))"
    by blast+
  have old: "map_of rotation_example_fs ''app.log.20240101_000000'' = Some (RegularFile ''a'')"
    by (simp add: rotation_example_fs_def)
  from keeps old have kept: "map_of (snd (run_calls ?cs (rotation_example_sink, rotation_example_fs)))
     ''app.log.20240101_000000'' = Some (RegularFile ''a'')"
    unfolding keeps_others_def b by simp
  have fsts: "map fst rotation_example_fs = [''app.log.20240101_000000'', ''app.log'']"
    by (simp add: rotation_example_fs_def)
  from h1 h2 h3 names keeps kept show ?thesis
    unfolding b fsts by (intro conjI)
qed

text \<open>
  Claim C9. When the line alone, with its newline, is at least \<open>max_bytes\<close> long (and
  the \<^verbatim>\<open>uint64_t\<close> sum does not wrap around), the write triggers a rotation whatever
  the counter is, also at 0. In an environment without failures, with an open stream, an
  existing base file and a free name among those probed, the write returns. Every such
  write that returns has performed a rotation of its own: the old base file, empty or
  not, has been renamed to the first free name that the probing finds and, unless
  pruning removed it (which it does not under the retention limit 0), is there as it
  was; the new base file holds the line alone; the counter is the length of that line,
  so that the next write of the same line triggers a rotation again.
\<close>

theorem oversized_line_rotates_every_time:
  assumes big: "unat (max_bytes s) \<le> length (physical_bytes line)"
    and nowrap: "unat (bytes_written s) + length (physical_bytes line) < 2 ^ 64"
  shows "max_bytes s \<le> projected s line \<and>
         (no_failures e \<and> file_ptr s \<noteq> None \<and> base_path s \<noteq> [] \<and>
          map_of fs (base_path s) \<noteq> None \<and>
          (\<exists>n\<in>set (rotated_names (base_path s @ ''.'' @ now_utc e)). \<not> file_exists fs n) \<longrightarrow>
          (\<exists>s' fs'. RotatingFileSink_write e line (s, fs) = (None, (s', fs')))) \<and>
         (\<forall>s' fs'. RotatingFileSink_write e line (s, fs) = (None, (s', fs')) \<longrightarrow>
            rotations_performed s' = rotations_performed s + 1 \<and>
            bytes_written s' = of_nat (length (physical_bytes line)) \<and>
            max_bytes s' = max_bytes s \<and>
            base_path s' = base_path s \<and>
            file_ptr s' = Some (base_path s) \<and>
            map_of fs (base_path s) \<noteq> None \<and>
            (\<exists>rn fs3.
               pick_rotated_name fs (base_path s @ ''.'' @ now_utc e) = Inr rn \<and>
               \<not> file_exists fs rn \<and> rn \<noteq> base_path s \<and>
               rename_file e (base_path s) rn fs = Some fs3 \<and>
               fs' = append_bytes (base_path s) (physical_bytes line)
                       (snd (prune_old_rotations_locked e
                            (s\<lparr>path := base_path s, file_ptr := Some (base_path s),
                               bytes_written := 0,
                               rotations_performed := rotations_performed s + 1\<rparr>,
                             fs3 @ [(base_path s, RegularFile [])]))) \<and>
               map_of fs' (base_path s) = Some (RegularFile (physical_bytes line)) \<and>
               (map_of fs' rn = None \<or> map_of fs' rn = map_of fs (base_path s)) \<and>
               (max_rotated_files s = 0 \<longrightarrow> map_of fs' rn = map_of fs (base_path s))) \<and>
            (length (physical_bytes line) + length (physical_bytes line) < 2 ^ 64 \<longrightarrow>
               max_bytes s' \<le> projected s' line))"
proof -
  have rot: "max_bytes s \<le> projected s line"
    using big nowrap by (rule oversized_projected)
  have ret: "\<exists>s' fs'. RotatingFileSink_write e line (s, fs) = (None, (s', fs'))"
    if h: "no_failures e \<and> file_ptr s \<noteq> None \<and> base_path s \<noteq> [] \<and>
          map_of fs (base_path s) \<noteq> None \<and>
          (\<exists>n\<in>set (rotated_names (base_path s @ ''.'' @ now_utc e)). \<not> file_exists fs n)"
  proof -
    from h have nf: "no_failures e" and fp: "file_ptr s \<noteq> None" by blast+
    from nf fp show ?thesis
    proof (rule write_returns_state)
      from h show "base_path s \<noteq> [] \<and> map_of fs (base_path s) \<noteq> None \<and>
         (\<exists>n\<in>set (rotated_names (base_path s @ ''.'' @ now_utc e)). \<not> file_exists fs n)"
        by blast
    qed
  qed
  have post: "rotations_performed s' = rotations_performed s + 1 \<and>
            bytes_written s' = of_nat (length (physical_bytes line)) \<and>
            max_bytes s' = max_bytes s \<and>
            base_path s' = base_path s \<and>
            file_ptr s' = Some (base_path s) \<and>
            map_of fs (base_path s) \<noteq> None \<and>
            (\<exists>rn fs3.
               pick_rotated_name fs (base_path s @ ''.'' @ now_utc e) = Inr rn \<and>
               \<not> file_exists fs rn \<and> rn \<noteq> base_path s \<and>
               rename_file e (base_path s) rn fs = Some fs3 \<and>
               fs' = append_bytes (base_path s) (physical_bytes line)
                       (snd (prune_old_rotations_locked e
                            (s\<lparr>path := base_path s, file_ptr := Some (base_path s),
                               bytes_written := 0,
                               rotations_performed := rotations_performed s + 1\<rparr>,
                             fs3 @ [(base_path s, RegularFile [])]))) \<and>
               map_of fs' (base_path s) = Some (RegularFile (physical_bytes line)) \<and>
               (map_of fs' rn = None \<or> map_of fs' rn = map_of fs (base_path s)) \<and>
               (max_rotated_files s = 0 \<longrightarrow> map_of fs' rn = map_of fs (base_path s))) \<and>
            (length (physical_bytes line) + length (physical_bytes line) < 2 ^ 64 \<longrightarrow>
               max_bytes s' \<le> projected s' line)"
    if ok: "RotatingFileSink_write e line (s, fs) = (None, (s', fs'))" for s' fs'
  proof -
    from write_rotating_exact [OF rot ok] obtain rn fs3 where
      pick: "pick_rotated_name fs (base_path s @ ''.'' @ now_utc e) = Inr rn"
      and nex: "\<not> file_exists fs rn" and ne: "rn \<noteq> base_path s"
      and ren: "rename_file e (base_path s) rn fs = Some fs3"
      and ex: "map_of fs (base_path s) \<noteq> None"
      and s': "s' = s\<lparr>path := base_path s, file_ptr := Some (base_path s),
                    bytes_written := of_nat (length (physical_bytes line)),
                    rotations_performed := rotations_performed s + 1\<rparr>"
      and fs': "fs' = append_bytes (base_path s) (physical_bytes line)
                    (snd (prune_old_rotations_locked e
                         (s\<lparr>path := base_path s, file_ptr := Some (base_path s),
                            bytes_written := 0,
                            rotations_performed := rotations_performed s + 1\<rparr>,
                          fs3 @ [(base_path s, RegularFile [])])))"
      and b': "map_of fs' (base_path s) = Some (RegularFile (physical_bytes line))"
      and r': "map_of fs' rn = None \<or> map_of fs' rn = map_of fs (base_path s)"
      and lim: "max_rotated_files s = 0 \<longrightarrow> map_of fs' rn = map_of fs (base_path s)"
      by (elim exE conjE) (rule that)
    have f1: "rotations_performed s' = rotations_performed s + 1"
      and f2: "bytes_written s' = of_nat (length (physical_bytes line))"
      and f3: "max_bytes s' = max_bytes s"
      and f4: "base_path s' = base_path s"
      and f5: "file_ptr s' = Some (base_path s)"
      unfolding s' by simp_all
    have again: "max_bytes s' \<le> projected s' line"
      if l: "length (physical_bytes line) + length (physical_bytes line) < 2 ^ 64"
    proof (rule oversized_projected)
      show "unat (max_bytes s') \<le> length (physical_bytes line)"
        unfolding f3 by (rule big)
      from l have "length (physical_bytes line) < 2 ^ 64" by simp
      then have "unat (of_nat (length (physical_bytes line)) :: 64 word) = length (physical_bytes line)"
        by (simp add: unat_of_nat)
      with l show "unat (bytes_written s') + length (physical_bytes line) < 2 ^ 64"
        unfolding f2 by simp
    qed
    have e: "\<exists>rn fs3.
               pick_rotated_name fs (base_path s @ ''.'' @ now_utc e) = Inr rn \<and>
               \<not> file_exists fs rn \<and> rn \<noteq> base_path s \<and>
               rename_file e (base_path s) rn fs = Some fs3 \<and>
               fs' = append_bytes (base_path s) (physical_bytes line)
                       (snd (prune_old_rotations_locked e
                            (s\<lparr>path := base_path s, file_ptr := Some (base_path s),
                               bytes_written := 0,
                               rotations_performed := rotations_performed s + 1\<rparr>,
                             fs3 @ [(base_path s, RegularFile [])]))) \<and>
               map_of fs' (base_path s) = Some (RegularFile (physical_bytes line)) \<and>
               (map_of fs' rn = None \<or> map_of fs' rn = map_of fs (base_path s)) \<and>
               (max_rotated_files s = 0 \<longrightarrow> map_of fs' rn = map_of fs (base_path s))"
      apply (rule exI [of _ rn])
      apply (rule exI [of _ fs3])
      apply (intro conjI)
      apply (rule pick)
      apply (rule nex)
      apply (rule ne)
      apply (rule ren)
      apply (rule fs')
      apply (rule b')
      apply (rule r')
      apply (rule lim)
      done
    from again have a: "length (physical_bytes line) + length (physical_bytes line) < 2 ^ 64 \<longrightarrow>
               max_bytes s' \<le> projected s' line"
      by blast
    from f1 f2 f3 f4 f5 ex e a show ?thesis by (intro conjI)
  qed
  from ret have ret': "no_failures e \<and> file_ptr s \<noteq> None \<and> base_path s \<noteq> [] \<and>
          map_of fs (base_path s) \<noteq> None \<and>
          (\<exists>n\<in>set (rotated_names (base_path s @ ''.'' @ now_utc e)). \<not> file_exists fs n) \<longrightarrow>
          (\<exists>s' fs'. RotatingFileSink_write e line (s, fs) = (None, (s', fs')))"
    by (rule impI)
  from post have post': "\<forall>s' fs'. RotatingFileSink_write e line (s, fs) = (None, (s', fs')) \<longrightarrow>
            rotations_performed s' = rotations_performed s + 1 \<and>
            bytes_written s' = of_nat (length (physical_bytes line)) \<and>
            max_bytes s' = max_bytes s \<and>
            base_path s' = base_path s \<and>
            file_ptr s' = Some (base_path s) \<and>
            map_of fs (base_path s) \<noteq> None \<and>
            (\<exists>rn fs3.
               pick_rotated_name fs (base_path s @ ''.'' @ now_utc e) = Inr rn \<and>
               \<not> file_exists fs rn \<and> rn \<noteq> base_path s \<and>
               rename_file e (base_path s) rn fs = Some fs3 \<and>
               fs' = append_bytes (base_path s) (physical_bytes line)
                       (snd (prune_old_rotations_locked e
                            (s\<lparr>path := base_path s, file_ptr := Some (base_path s),
                               bytes_written := 0,
                               rotations_performed := rotations_performed s + 1\<rparr>,
                             fs3 @ [(base_path s, RegularFile [])]))) \<and>
               map_of fs' (base_path s) = Some (RegularFile (physical_bytes line)) \<and>
               (map_of fs' rn = None \<or> map_of fs' rn = map_of fs (base_path s)) \<and>
               (max_rotated_files s = 0 \<longrightarrow> map_of fs' rn = map_of fs (base_path s))) \<and>
            (length (physical_bytes line) + length (physical_bytes line) < 2 ^ 64 \<longrightarrow>
               max_bytes s' \<le> projected s' line)"
    by (intro allI impI)
  from rot ret' post' show ?thesis by (intro conjI)
qed

theorem oversized_line_rotates_every_time_witness:
  "unat (max_bytes oversized_example_sink) \<le> length (physical_bytes ''hello'') \<and>
   unat (bytes_written oversized_example_sink) + length (physical_bytes ''hello'') < 2 ^ 64 \<and>
   no_failures example_env \<and> file_ptr oversized_example_sink \<noteq> None \<and>
   base_path oversized_example_sink \<noteq> [] \<and>
   map_of oversized_example_fs (base_path oversized_example_sink) = Some (RegularFile []) \<and>
   ''app.log.20240102_030405''
     \<in> set (rotated_names (base_path oversized_example_sink @ ''.'' @ now_utc example_env)) \<and>
   \<not> file_exists oversized_example_fs ''app.log.20240102_030405'' \<and>
   (\<exists>s' fs'. RotatingFileSink_write example_env ''hello''
               (oversized_example_sink, oversized_example_fs) = (None, (s', fs'))) \<and>
   bytes_written oversized_example_sink = 0 \<and>
   max_bytes oversized_example_sink \<le> projected oversized_example_sink ''hello'' \<and>
   RotatingFileSink_write example_env ''hello'' (oversized_example_sink, oversized_example_fs) =
     (None,
      (oversized_example_sink\<lparr>bytes_written := 6, rotations_performed := 1\<rparr>,
       [(''app.log.20240102_030405'', RegularFile []),
        (''app.log'', RegularFile (''hello'' @ [CHR 0x0A]))])) \<and>
   max_bytes (oversized_example_sink\<lparr>bytes_written := 6, rotations_performed := 1\<rparr>)
     \<le> projected (oversized_example_sink\<lparr>bytes_written := 6, rotations_performed := 1\<rparr>)
          ''hello'' \<and>
   RotatingFileSink_write example_env ''hello''
     (oversized_example_sink\<lparr>bytes_written := 6, rotations_performed := 1\<rparr>,
       [(''app.log.20240102_030405'', RegularFile []),
        (''app.log'', RegularFile (''hello'' @ [CHR 0x0A]))]) =
     (None,
      (oversized_example_sink\<lparr>bytes_written := 6, rotations_performed := 2\<rparr>,
       [(''app.log.20240102_030405'', RegularFile []),
        (''app.log.20240102_030405.1'', RegularFile (''hello'' @ [CHR 0x0A])),
        (''app.log'', RegularFile (''hello'' @ [CHR 0x0A]))]))"
proof -
  have big: "unat (max_bytes oversized_example_sink) \<le> length (physical_bytes ''hello'')"
    by (simp add: oversized_example_sink_def physical_bytes_def)
  have nowrap: "unat (bytes_written oversized_example_sink) + length (physical_bytes ''hello'')
                  < 2 ^ 64"
    by (simp add: oversized_example_sink_def physical_bytes_def ends_with_newline_def)
  note t = oversized_line_rotates_every_time [OF big nowrap, of example_env oversized_example_fs]
  have nf: "no_failures example_env" by (rule no_failures_example_env)
  have fp: "file_ptr oversized_example_sink \<noteq> None"
    and bp: "base_path oversized_example_sink \<noteq> []"
    and ex: "map_of oversized_example_fs (base_path oversized_example_sink) = Some (RegularFile [])"
    by (simp_all add: oversized_example_sink_def oversized_example_fs_def)
  have mem: "''app.log.20240102_030405''
     \<in> set (rotated_names (base_path oversized_example_sink @ ''.'' @ now_utc example_env))"
    using rotated_names_head [of "''app.log.20240102_030405''"]
    by (simp add: oversized_example_sink_def example_env_def)
  have free: "\<not> file_exists oversized_example_fs ''app.log.20240102_030405''"
    by (simp add: file_exists_def oversized_example_fs_def)
  from ex have ex': "map_of oversized_example_fs (base_path oversized_example_sink) \<noteq> None"
    by simp
  from t nf fp bp ex' mem free
  have ret: "\<exists>s' fs'. RotatingFileSink_write example_env ''hello''
               (oversized_example_sink, oversized_example_fs) = (None, (s', fs'))"
    by blast
  from t have rot: "max_bytes oversized_example_sink \<le> projected oversized_example_sink ''hello''"
    by blast
  have two: "length (physical_bytes ''hello'') + length (physical_bytes ''hello'') < 2 ^ 64"
    by (simp add: physical_bytes_def ends_with_newline_def)
  from t oversized_example_write two
  have again: "max_bytes (oversized_example_sink\<lparr>bytes_written := 6, rotations_performed := 1\<rparr>)
     \<le> projected (oversized_example_sink\<lparr>bytes_written := 6, rotations_performed := 1\<rparr>)
          ''hello''"
    by blast
  have z: "bytes_written oversized_example_sink = 0"
    by (simp add: oversized_example_sink_def)
  from big nowrap nf fp bp ex mem free ret z rot oversized_example_write again
    oversized_example_write_again
  show ?thesis
    by (intro conjI)
qed

end
